theory Spec2Isabelle
  imports Main
begin

section \<open>Strings as the scraper uses them\<close>

text \<open>
  JavaScript strings are modelled as HOL strings. A value that may be \<open>undefined\<close> or
  \<open>null\<close> is a \<open>string option\<close>; the tests \<open>if (x)\<close>, \<open>!x\<close> and \<open>a || b\<close> of the source
  treat \<open>undefined\<close>, \<open>null\<close> and the empty string alike, which is \<open>truthy\<close> below.
\<close>

definition truthy :: "string option \<Rightarrow> bool" where
  "truthy x = (case x of None \<Rightarrow> False | Some s \<Rightarrow> s \<noteq> [])"

definition or_else :: "string option \<Rightarrow> string option \<Rightarrow> string option" where
  "or_else a b = (if truthy a then a else b)"

definition is_m :: "char \<Rightarrow> bool" where
  "is_m c = (c = CHR ''m'' \<or> c = CHR ''M'')"

definition is_p :: "char \<Rightarrow> bool" where
  "is_p c = (c = CHR ''p'' \<or> c = CHR ''P'')"

definition is_u :: "char \<Rightarrow> bool" where
  "is_u c = (c = CHR ''u'' \<or> c = CHR ''U'')"


text \<open>The regular expression \<open>/\.mp4$/i\<close>: the whole of a four-character suffix.\<close>

fun mp4_suffix :: "string \<Rightarrow> bool" where
  "mp4_suffix [c0, c1, c2, c3] = (c0 = CHR ''.'' \<and> is_m c1 \<and> is_p c2 \<and> c3 = CHR ''4'')"
| "mp4_suffix _ = False"

text \<open>\<open>filename.replace(/\.mp4$/i, ".mp3")\<close>: a name that does not end in \<open>.mp4\<close> is unchanged.\<close>

definition mp4_to_mp3 :: "string \<Rightarrow> string" where
  "mp4_to_mp3 filename =
     (if mp4_suffix (drop (length filename - 4) filename)
      then take (length filename - 4) filename @ ''.mp3''
      else filename)"

text \<open>
  \<open>path.join(DATA_DIR, name)\<close> for a normalised directory and a name of one segment, and
  \<open>path.basename\<close>, the text after the last separator.
\<close>

definition path_join :: "string \<Rightarrow> string \<Rightarrow> string" where
  "path_join dir name = dir @ ''/'' @ name"

definition basename :: "string \<Rightarrow> string" where
  "basename p = rev (takeWhile (\<lambda>c. c \<noteq> CHR ''/'') (rev p))"

subsection \<open>Decimal rendering\<close>

definition digit_char :: "nat \<Rightarrow> char" where
  "digit_char d =
     (if d = 0 then CHR ''0'' else if d = 1 then CHR ''1'' else if d = 2 then CHR ''2''
      else if d = 3 then CHR ''3'' else if d = 4 then CHR ''4'' else if d = 5 then CHR ''5''
      else if d = 6 then CHR ''6'' else if d = 7 then CHR ''7'' else if d = 8 then CHR ''8''
      else CHR ''9'')"

function string_of_nat :: "nat \<Rightarrow> string" where
  "string_of_nat n =
     (if n < 10 then [digit_char n] else string_of_nat (n div 10) @ [digit_char (n mod 10)])"
  by pat_completeness auto
termination
  by (relation "measure id") auto

declare string_of_nat.simps [simp del]

text \<open>\<open>String(i)\<close> and the template literal \<open>`${i}`\<close> of an integer.\<close>

definition string_of_int :: "int \<Rightarrow> string" where
  "string_of_int i = (if i < 0 then CHR ''-'' # string_of_nat (nat (- i)) else string_of_nat (nat i))"

text \<open>\<open>s.padStart(2, "0")\<close>.\<close>

definition padStart2 :: "string \<Rightarrow> string" where
  "padStart2 s = replicate (2 - length s) (CHR ''0'') @ s"

section \<open>Dates and the derived file name\<close>

text \<open>
  The \<open>Date\<close> object is an interface of the runtime. An instant is its \<open>getTime()\<close> value
  (milliseconds since the epoch); \<open>Date_parse s\<close> is \<open>new Date(s).getTime()\<close>, with \<open>None\<close>
  for \<open>NaN\<close> (an invalid date). The calendar getters read the process's local time zone,
  \<open>toISOString\<close> renders in UTC.
\<close>

record date_api =
  Date_parse :: "string \<Rightarrow> int option"
  getFullYear :: "int \<Rightarrow> int"
  getMonth :: "int \<Rightarrow> nat"
  getDate :: "int \<Rightarrow> nat"
  toISOString :: "int \<Rightarrow> string"

text \<open>
  \<open>buildFilenameFromPubDate(pubDate)\<close>; \<open>now\<close> is the instant \<open>new Date()\<close> returns when the
  function falls back to the current date.
\<close>

definition buildFilenameFromPubDate :: "date_api \<Rightarrow> int \<Rightarrow> string option \<Rightarrow> string" where
  "buildFilenameFromPubDate api now pubDate =
     (let dateStr =
            (case pubDate of
               None \<Rightarrow> None
             | Some p \<Rightarrow>
                 if p = [] then None
                 else (case Date_parse api p of
                         None \<Rightarrow> None
                       | Some d \<Rightarrow>
                           Some (string_of_int (getFullYear api d) @ ''-''
                                 @ padStart2 (string_of_nat (getMonth api d + 1)) @ ''-''
                                 @ padStart2 (string_of_nat (getDate api d)))));
          dateStr' =
            (case dateStr of
               None \<Rightarrow> take 10 (toISOString api now)
             | Some ds \<Rightarrow> if ds = [] then take 10 (toISOString api now) else ds)
      in ''Mental-Health-Mondays-'' @ dateStr' @ ''.mp4'')"


definition is_digit :: "char \<Rightarrow> bool" where
  "is_digit c = (48 \<le> (of_char c :: nat) \<and> (of_char c :: nat) \<le> 57)"




section \<open>The video URL resolver\<close>

text \<open>
  What the resolver reads off a fetched page is the outcome of library calls on the HTML
  text: the first group of \<open>html.match(/Fusion\.globalContent=({[\s\S]*?});/)\<close>, the
  attributes cheerio selects, and the two matches of the media regular expressions on the
  joined inline scripts. A \<open>page\<close> holds these readings. \<open>JSON.parse\<close> is a function of
  the runtime that returns the metadata or throws (\<open>None\<close>). An entry of the \<open>streams\<close>
  array is an object or \<open>null\<close> (\<open>None\<close>), and \<open>streams\<close> itself is \<open>None\<close> when the key is
  missing or not an array.
\<close>

record VideoStream =
  stream_type :: "string option"
  url :: "string option"

record VideoMetadata =
  streams :: "VideoStream option list option"

record page =
  fusion_match :: "string option"
  video_source_src :: "string option"
  video_src :: "string option"
  script_media_url :: "string option"
  script_assigned_url :: "string option"
  data_video_src :: "string option"
  data_src :: "string option"
  data_url :: "string option"

datatype exn = FetchError | SyntaxError | TypeError | RangeError | RenderError | CloseError

text \<open>
  What \<open>fetchPage\<close> returns is \<open>response.data\<close> of axios: the text of the body, or, when
  the body parses as JSON, the parsed value, which is no string and has no \<open>match\<close> method.
\<close>

datatype body = Text page | NotText

text \<open>
  \<open>streams.find((s) => s.stream_type === t)\<close>: the first entry of that type; reading
  \<open>stream_type\<close> of a \<open>null\<close> entry throws.
\<close>

fun find_stream :: "string \<Rightarrow> VideoStream option list \<Rightarrow> exn + VideoStream option" where
  "find_stream t [] = Inr None"
| "find_stream t (None # ss) = Inl TypeError"
| "find_stream t (Some s # ss) = (if stream_type s = Some t then Inr (Some s) else find_stream t ss)"

text \<open>The body of the \<open>try\<close> block of strategy 1, after \<open>JSON.parse\<close>.\<close>

definition metadata_url :: "VideoMetadata \<Rightarrow> exn + string option" where
  "metadata_url metadata =
     (case streams metadata of
        None \<Rightarrow> Inr None
      | Some ss \<Rightarrow>
          (case find_stream ''mp4'' ss of
             Inl e \<Rightarrow> Inl e
           | Inr mp4Stream \<Rightarrow>
               if truthy (Option.bind mp4Stream url) then Inr (Option.bind mp4Stream url)
               else (case find_stream ''ts'' ss of
                       Inl e \<Rightarrow> Inl e
                     | Inr hlsStream \<Rightarrow>
                         if truthy (Option.bind hlsStream url) then Inr (Option.bind hlsStream url)
                         else Inr None)))"

text \<open>Strategy 1 with its \<open>catch\<close>: every exception of the block is a miss.\<close>

definition fusion_url :: "(string \<Rightarrow> VideoMetadata option) \<Rightarrow> page \<Rightarrow> string option" where
  "fusion_url JSON_parse html =
     (case fusion_match html of
        None \<Rightarrow> None
      | Some blob \<Rightarrow>
          (case JSON_parse blob of
             None \<Rightarrow> None
           | Some metadata \<Rightarrow> (case metadata_url metadata of Inl e \<Rightarrow> None | Inr r \<Rightarrow> r)))"

text \<open>\<open>/\.(?:m3u8|mp4)(?:\?|$)/i.test(dataUrl)\<close>.\<close>

definition end_or_query :: "string \<Rightarrow> bool" where
  "end_or_query r = (case r of [] \<Rightarrow> True | c # _ \<Rightarrow> c = CHR ''?'')"

fun media_ext_here :: "string \<Rightarrow> bool" where
  "media_ext_here (c0 # c1 # c2 # c3 # rest) =
     (c0 = CHR ''.'' \<and> is_m c1 \<and>
      ((is_p c2 \<and> c3 = CHR ''4'' \<and> end_or_query rest) \<or>
       (c2 = CHR ''3'' \<and> is_u c3 \<and>
        (case rest of [] \<Rightarrow> False | c4 # rest' \<Rightarrow> c4 = CHR ''8'' \<and> end_or_query rest'))))"
| "media_ext_here _ = False"

fun has_media_ext :: "string \<Rightarrow> bool" where
  "has_media_ext [] = False"
| "has_media_ext (c # cs) = (media_ext_here (c # cs) \<or> has_media_ext cs)"

text \<open>
  The rendered fallback. \<open>RenderFailed\<close>: launching the browser or loading the page throws,
  the \<open>catch\<close> ignores it, and the browser, if it was launched, closes. \<open>Rendered\<close>: the page
  loads and yields the URL read from the DOM and the first media response captured, and
  the browser closes. \<open>CloseFailed\<close>: \<open>browser.close()\<close> throws in the \<open>finally\<close> block,
  whatever the \<open>try\<close> block did; the \<open>finally\<close> block is outside the \<open>catch\<close>, so that
  exception replaces the result of the function.
\<close>

datatype render_outcome = RenderFailed | Rendered "string option" "string option" | CloseFailed

text \<open>
  \<open>extractVideoUrl(pageUrl)\<close>. \<open>fetched\<close> is what \<open>fetchPage(pageUrl)\<close> returns, \<open>None\<close> when
  the request fails: \<open>fetchPage\<close> logs and rethrows, and the call is outside every \<open>try\<close> of
  \<open>extractVideoUrl\<close>. So is \<open>html.match\<close>, which throws when the body is no string. The
  browser is launched only when strategies 1 to 4 miss.
\<close>

definition extractVideoUrl ::
  "(string \<Rightarrow> VideoMetadata option) \<Rightarrow> body option \<Rightarrow> render_outcome \<Rightarrow> exn + string option" where
  "extractVideoUrl JSON_parse fetched rendered =
     (case fetched of
        None \<Rightarrow> Inl FetchError
      | Some NotText \<Rightarrow> Inl TypeError
      | Some (Text html) \<Rightarrow>
          (let fromFusion = fusion_url JSON_parse html;
               videoSrc = or_else (video_source_src html) (video_src html);
               urlFromScripts = or_else (script_media_url html) (script_assigned_url html);
               dataUrl = or_else (or_else (data_video_src html) (data_src html)) (data_url html)
           in if truthy fromFusion then Inr fromFusion
              else if truthy videoSrc then Inr videoSrc
              else if truthy urlFromScripts then Inr urlFromScripts
              else if truthy dataUrl \<and> (case dataUrl of None \<Rightarrow> False | Some d \<Rightarrow> has_media_ext d)
                then Inr dataUrl
              else (case rendered of
                      RenderFailed \<Rightarrow> Inr None
                    | Rendered domUrl capturedUrl \<Rightarrow>
                        if truthy domUrl then Inr domUrl
                        else if truthy capturedUrl then Inr capturedUrl
                        else Inr None
                    | CloseFailed \<Rightarrow> Inl CloseError)))"

section \<open>The episode discoverer\<close>

text \<open>
  The \<open>URL\<close> constructor is a function of the runtime: \<open>URL_new h\<close> is \<open>new URL(h)\<close> and
  \<open>URL_new_base h\<close> is \<open>new URL(h, "https://www.wtap.com")\<close>, each \<open>None\<close> when the
  constructor throws.
\<close>

record URL =
  href :: string
  pathname :: string

record url_api =
  URL_new :: "string \<Rightarrow> URL option"
  URL_new_base :: "string \<Rightarrow> URL option"

definition SEARCH_URL :: string where
  "SEARCH_URL = ''https://www.wtap.com/wtap-plus/podcasts/mental-health-mondays/''"

text \<open>\<open>s.replace(/\/?$/, "/")\<close>: one slash at the end, added when it is missing.\<close>

definition with_trailing_slash :: "string \<Rightarrow> string" where
  "with_trailing_slash s = (if s \<noteq> [] \<and> last s = CHR ''/'' then s else s @ ''/'')"

definition startsWith_http :: "string \<Rightarrow> bool" where
  "startsWith_http s = (take 4 s = ''http'')"

text \<open>\<open>/^\/\d{4}\/\d{2}\/\d{2}\//.test(pathname)\<close>.\<close>

definition date_path :: "string \<Rightarrow> bool" where
  "date_path p =
     (12 \<le> length p \<and>
      p ! 0 = CHR ''/'' \<and> is_digit (p ! 1) \<and> is_digit (p ! 2) \<and> is_digit (p ! 3) \<and> is_digit (p ! 4) \<and>
      p ! 5 = CHR ''/'' \<and> is_digit (p ! 6) \<and> is_digit (p ! 7) \<and>
      p ! 8 = CHR ''/'' \<and> is_digit (p ! 9) \<and> is_digit (p ! 10) \<and>
      p ! 11 = CHR ''/'')"

definition isEpisodeUrl :: "url_api \<Rightarrow> string \<Rightarrow> bool" where
  "isEpisodeUrl api h =
     (case (if startsWith_http h then URL_new api h else URL_new_base api h) of
        None \<Rightarrow> False
      | Some u \<Rightarrow>
          if with_trailing_slash (href u) = SEARCH_URL then False
          else if pathname u = ''/homepage'' then False
          else date_path (pathname u))"

text \<open>
  A card is a \<open>div.card-body\<close> of the rendered listing, read as the source reads it: the
  trimmed \<open>href\<close> of its first anchor (\<open>None\<close> when there is none), the trimmed text of its
  first heading and the trimmed text of that anchor. An anchor is any \<open>a[href]\<close> of the
  page, with its trimmed \<open>href\<close> and text.
\<close>

record card =
  card_href :: "string option"
  card_heading :: string
  card_link_text :: string

record anchor =
  a_href :: "string option"
  a_text :: string

record VideoInfo =
  v_title :: string
  v_url :: string

record listing =
  cards :: "card list"
  anchors :: "anchor list"

definition text_or :: "string \<Rightarrow> string \<Rightarrow> string" where
  "text_or a b = (if a \<noteq> [] then a else b)"

text \<open>\<open>href.startsWith("http") ? href : new URL(href, "https://www.wtap.com").href\<close>.\<close>

definition absolute_url :: "url_api \<Rightarrow> string \<Rightarrow> string option" where
  "absolute_url api h = (if startsWith_http h then Some h else map_option href (URL_new_base api h))"

text \<open>\<open>if (!videos.some((v) => v.url === url)) videos.push({ title, url })\<close>.\<close>

definition push_unique :: "VideoInfo list \<Rightarrow> VideoInfo \<Rightarrow> VideoInfo list" where
  "push_unique videos v = (if v_url v \<in> set (map v_url videos) then videos else videos @ [v])"

text \<open>
  The callback of \<open>$("div.card-body").each\<close> up to the test for a duplicate: the entry the
  card stands for, or \<open>None\<close> when the callback returns early.
\<close>

definition card_candidate :: "url_api \<Rightarrow> card \<Rightarrow> VideoInfo option" where
  "card_candidate api c =
     (case card_href c of
        None \<Rightarrow> None
      | Some h \<Rightarrow>
          if h = [] then None
          else if \<not> isEpisodeUrl api h then None
          else (case absolute_url api h of
                  None \<Rightarrow> None
                | Some u \<Rightarrow>
                    if with_trailing_slash u = SEARCH_URL then None
                    else Some \<lparr>v_title = text_or (text_or (card_heading c) (card_link_text c))
                                           ''Mental Health Mondays'',
                               v_url = u\<rparr>))"

definition card_step :: "url_api \<Rightarrow> VideoInfo list \<Rightarrow> card \<Rightarrow> VideoInfo list" where
  "card_step api videos c =
     (case card_candidate api c of None \<Rightarrow> videos | Some v \<Rightarrow> push_unique videos v)"

text \<open>The same for the callback of \<open>$("a[href]").each\<close> of the fallback.\<close>

definition anchor_candidate :: "url_api \<Rightarrow> anchor \<Rightarrow> VideoInfo option" where
  "anchor_candidate api a =
     (case a_href a of
        None \<Rightarrow> None
      | Some h \<Rightarrow>
          if h = [] then None
          else if \<not> isEpisodeUrl api h then None
          else (case absolute_url api h of
                  None \<Rightarrow> None
                | Some u \<Rightarrow>
                    Some \<lparr>v_title = text_or (a_text a) ''Mental Health Mondays'', v_url = u\<rparr>))"

definition anchor_step :: "url_api \<Rightarrow> VideoInfo list \<Rightarrow> anchor \<Rightarrow> VideoInfo list" where
  "anchor_step api videos a =
     (case anchor_candidate api a of None \<Rightarrow> videos | Some v \<Rightarrow> push_unique videos v)"

text \<open>
  \<open>searchForVideos()\<close> on the rendered listing, the browser closed afterwards; \<open>None\<close> is
  a failure of the browser to launch, to load the page or to close, which the function
  throws.
\<close>

definition searchForVideos :: "url_api \<Rightarrow> listing option \<Rightarrow> exn + VideoInfo list" where
  "searchForVideos api rendered =
     (case rendered of
        None \<Rightarrow> Inl RenderError
      | Some l \<Rightarrow>
          (let videos = foldl (card_step api) [] (cards l)
           in Inr (if videos = [] then foldl (anchor_step api) [] (anchors l) else videos)))"

text \<open>
  De-duplication in the words of the specification: of the entries with one URL the first
  is kept, and the order of the rest is that of the document.
\<close>

fun first_seen :: "VideoInfo list \<Rightarrow> VideoInfo list" where
  "first_seen [] = []"
| "first_seen (v # vs) = v # first_seen (filter (\<lambda>x. v_url x \<noteq> v_url v) vs)"

section \<open>Configuration\<close>

record config =
  DATA_DIR :: string
  GENERATE_YAML :: bool
  dates :: date_api
  JSON_parse :: "string \<Rightarrow> VideoMetadata option"

section \<open>The file system and the acquisition steps\<close>

text \<open>
  The data directory is the set of paths that exist. \<open>fs.stat\<close> succeeds exactly on a
  member, \<open>fs.unlink\<close> removes a member and fails on a path that is absent, and a write
  creates the path. What the run did is recorded as a list of events: a media request
  (\<open>axios.get\<close> streamed to a file), a transcoder invocation, and a tag write.
\<close>

datatype event =
    Fetch string string
  | Transcode string string
  | Tag string

record state =
  files :: "string set"
  events :: "event list"

definition stat :: "state \<Rightarrow> string \<Rightarrow> bool" where
  "stat s p = (p \<in> files s)"

definition unlink :: "state \<Rightarrow> string \<Rightarrow> bool \<times> state" where
  "unlink s p = (if p \<in> files s then (True, s\<lparr>files := files s - {p}\<rparr>) else (False, s))"

definition write_file :: "state \<Rightarrow> string \<Rightarrow> state" where
  "write_file s p = s\<lparr>files := insert p (files s)\<rparr>"

definition log_event :: "state \<Rightarrow> event \<Rightarrow> state" where
  "log_event s e = s\<lparr>events := events s @ [e]\<rparr>"

text \<open>
  How the media request ends: the stream is written in full, or the request or the
  pipeline fails (a timeout included). The first flag says whether a partial file had been
  created at the target path by then, the second whether the \<open>fs.unlink\<close> of the cleanup
  removes it; an exception of that \<open>fs.unlink\<close> is ignored.
\<close>

datatype download_outcome = Downloaded | DownloadFailed bool bool

definition downloadVideo ::
  "config \<Rightarrow> download_outcome \<Rightarrow> string \<Rightarrow> string \<Rightarrow> state \<Rightarrow> bool \<times> state" where
  "downloadVideo cfg net videoUrl filename s =
     (let filePath = path_join (DATA_DIR cfg) filename;
          audioPath = path_join (DATA_DIR cfg) (mp4_to_mp3 filename)
      in if stat s audioPath then (False, s)
         else if stat s filePath then (True, s)
         else (let s1 = log_event s (Fetch videoUrl filePath)
               in case net of
                    Downloaded \<Rightarrow> (True, write_file s1 filePath)
                  | DownloadFailed partial cleaned \<Rightarrow>
                      (let s2 = (if partial then write_file s1 filePath else s1)
                       in (False, if cleaned then snd (unlink s2 filePath) else s2))))"

text \<open>
  How the \<open>try\<close> block of \<open>extractAudio\<close> ends: \<open>ffmpeg\<close> exits with status zero, the
  audio file written, and the video file is unlinked; or \<open>ffmpeg\<close>, or the \<open>fs.unlink\<close> after
  it, fails, and the flag says whether an audio file is left behind.
\<close>

datatype ffmpeg_outcome = Transcoded | TranscodeFailed bool

definition extractAudio :: "config \<Rightarrow> ffmpeg_outcome \<Rightarrow> string \<Rightarrow> state \<Rightarrow> bool \<times> state" where
  "extractAudio cfg ffmpeg videoFilename s =
     (let videoPath = path_join (DATA_DIR cfg) videoFilename;
          audioPath = path_join (DATA_DIR cfg) (mp4_to_mp3 videoFilename);
          s1 = log_event s (Transcode videoPath audioPath)
      in case ffmpeg of
           Transcoded \<Rightarrow> unlink (write_file s1 audioPath) videoPath
         | TranscodeFailed left \<Rightarrow> (False, if left then write_file s1 audioPath else s1))"

section \<open>The catalog\<close>

text \<open>
  A catalog entry has the keys of the YAML document. \<open>pub_date\<close> holds the text
  \<open>toISOString()\<close> gives; it is represented by the instant it denotes, since the \<open>Date\<close>
  constructor reads such a text back to the same instant. \<open>episode\<close> is \<open>None\<close> when the
  key is missing from an entry of a document edited by hand. A new entry is an entry
  without the \<open>episode\<close> key. The keys of the document other than \<open>episodes\<close> are kept as
  they are.
\<close>

record EpisodeNew =
  "file" :: string
  title :: string
  description :: string
  pub_date :: int
  explicit :: bool
  season :: int
  episode_type :: string

record EpisodeYaml = EpisodeNew +
  episode :: "int option"

record TemplateYaml =
  episodes :: "EpisodeYaml list option"
  other_keys :: "(string \<times> string) list"

text \<open>\<open>{ ...ep, episode: n }\<close>.\<close>

definition with_episode :: "EpisodeNew \<Rightarrow> int \<Rightarrow> EpisodeYaml" where
  "with_episode ep n =
     \<lparr>file = file ep, title = title ep, description = description ep, pub_date = pub_date ep,
      explicit = explicit ep, season = season ep, episode_type = episode_type ep,
      episode = Some n\<rparr>"

text \<open>\<open>e.episode || 0\<close> and \<open>a.episode ?? 0\<close> agree: a missing number counts as zero.\<close>

definition ordinal :: "EpisodeYaml \<Rightarrow> int" where
  "ordinal e = (case episode e of None \<Rightarrow> 0 | Some n \<Rightarrow> n)"

definition existingMax :: "EpisodeYaml list \<Rightarrow> int" where
  "existingMax eps = foldl (\<lambda>m e. max m (ordinal e)) 0 eps"

text \<open>\<open>Array.isArray(doc.episodes) ? [...doc.episodes] : []\<close>.\<close>

definition entries :: "TemplateYaml \<Rightarrow> EpisodeYaml list" where
  "entries doc = (case episodes doc of Some es \<Rightarrow> es | None \<Rightarrow> [])"

text \<open>The \<open>for\<close> loop of \<open>upsertEpisodes\<close> over the new entries.\<close>

fun upsert_loop :: "EpisodeNew list \<Rightarrow> EpisodeYaml list \<Rightarrow> string set \<Rightarrow> int \<Rightarrow> EpisodeYaml list" where
  "upsert_loop [] eps existingFiles next = eps"
| "upsert_loop (ep # rest) eps existingFiles next =
     (if file ep \<in> existingFiles then upsert_loop rest eps existingFiles next
      else upsert_loop rest (eps @ [with_episode ep next]) (insert (file ep) existingFiles) (next + 1))"

text \<open>
  \<open>upsertEpisodes(doc, newEpisodes)\<close>. \<open>Array.prototype.sort\<close> is stable, and so is
  \<open>sort_key\<close>.
\<close>

definition upsertEpisodes :: "TemplateYaml \<Rightarrow> EpisodeNew list \<Rightarrow> TemplateYaml" where
  "upsertEpisodes doc newEpisodes =
     (let eps = entries doc;
          existingFiles = set (map file eps);
          next = existingMax eps + 1
      in doc\<lparr>episodes := Some (sort_key ordinal (upsert_loop newEpisodes eps existingFiles next))\<rparr>)"

text \<open>
  The merge in the words of the specification: the new entries that survive are those
  whose file name is neither in the catalog nor on an earlier new entry, and they are
  numbered consecutively.
\<close>

fun survivors :: "string set \<Rightarrow> EpisodeNew list \<Rightarrow> EpisodeNew list" where
  "survivors F [] = []"
| "survivors F (ep # rest) =
     (if file ep \<in> F then survivors F rest else ep # survivors (insert (file ep) F) rest)"

fun number_from :: "int \<Rightarrow> EpisodeNew list \<Rightarrow> EpisodeYaml list" where
  "number_from n [] = []"
| "number_from n (ep # rest) = with_episode ep n # number_from (n + 1) rest"

text \<open>
  \<open>readYamlTemplateOrExisting\<close>: the persisted catalog when it can be read and parsed,
  else the template, else a minimal document.
\<close>

definition readYamlTemplateOrExisting :: "TemplateYaml option \<Rightarrow> TemplateYaml option \<Rightarrow> TemplateYaml" where
  "readYamlTemplateOrExisting existing template =
     (case existing of
        Some doc \<Rightarrow> doc
      | None \<Rightarrow> (case template of Some doc \<Rightarrow> doc | None \<Rightarrow> \<lparr>episodes = Some [], other_keys = []\<rparr>))"

section \<open>The run\<close>

text \<open>
  \<open>fetchArticleMeta\<close> never throws: a failed request gives the empty record.
\<close>

record ArticleMeta =
  meta_title :: "string option"
  meta_description :: "string option"
  pubDate :: "string option"

text \<open>
  What the outside world answers while one discovered video is processed: the page
  request of the resolver, the rendered fallback, the article metadata, the clock when the
  file name is built, the media request, the transcoder, and the clock when the catalog
  entry is built.
\<close>

record world =
  page_response :: "body option"
  render_response :: render_outcome
  meta_response :: ArticleMeta
  clock_filename :: int
  download_response :: download_outcome
  ffmpeg_response :: ffmpeg_outcome
  clock_yaml :: int

text \<open>
  The file name \<open>main\<close> derives for the video, and the paths of its two artifacts.
\<close>

definition filename_of :: "config \<Rightarrow> world \<Rightarrow> string" where
  "filename_of cfg w =
     buildFilenameFromPubDate (dates cfg) (clock_filename w) (pubDate (meta_response w))"

definition video_path :: "config \<Rightarrow> string \<Rightarrow> string" where
  "video_path cfg filename = path_join (DATA_DIR cfg) filename"

definition audio_path :: "config \<Rightarrow> string \<Rightarrow> string" where
  "audio_path cfg filename = path_join (DATA_DIR cfg) (mp4_to_mp3 filename)"

text \<open>An event that concerns the artifacts of a file name.\<close>

definition about :: "config \<Rightarrow> string \<Rightarrow> event \<Rightarrow> bool" where
  "about cfg filename e =
     (case e of
        Fetch u p \<Rightarrow> p = video_path cfg filename
      | Transcode v a \<Rightarrow> v = video_path cfg filename \<and> a = audio_path cfg filename
      | Tag a \<Rightarrow> a = audio_path cfg filename)"

text \<open>
  The entry \<open>yamlEp\<close>. \<open>toISOString()\<close> of an invalid date throws, inside the \<open>try\<close> block
  of the tagging step.
\<close>

definition yaml_entry :: "config \<Rightarrow> world \<Rightarrow> string \<Rightarrow> exn + EpisodeNew" where
  "yaml_entry cfg w audioPath =
     (let m = meta_response w;
          d = (case pubDate m of
                 None \<Rightarrow> Some (clock_yaml w)
               | Some p \<Rightarrow> if p = [] then Some (clock_yaml w) else Date_parse (dates cfg) p)
      in case d of
           None \<Rightarrow> Inl RangeError
         | Some t \<Rightarrow>
             Inr \<lparr>file = basename audioPath,
                  title = (case meta_title m of None \<Rightarrow> ''Mental Health Mondays'' | Some x \<Rightarrow> x),
                  description = (case meta_description m of None \<Rightarrow> [] | Some x \<Rightarrow> x),
                  pub_date = t, explicit = False, season = 1, episode_type = ''full''\<rparr>)"

text \<open>
  The \<open>try\<close> block that tags the audio file and prepares the catalog entry; its \<open>catch\<close>
  only logs.
\<close>

definition tag_and_catalog ::
  "config \<Rightarrow> world \<Rightarrow> string \<Rightarrow> state \<times> EpisodeNew list \<Rightarrow> state \<times> EpisodeNew list" where
  "tag_and_catalog cfg w audioPath st =
     (let (s, episodesForYaml) = st
      in if stat s audioPath
         then (let s1 = log_event s (Tag audioPath)
               in if GENERATE_YAML cfg
                  then (case yaml_entry cfg w audioPath of
                          Inl e \<Rightarrow> (s1, episodesForYaml)
                        | Inr yamlEp \<Rightarrow> (s1, episodesForYaml @ [yamlEp]))
                  else (s1, episodesForYaml))
         else (s, episodesForYaml))"

text \<open>
  One iteration of the loop of \<open>main\<close> over \<open>videos\<close>. The first component of the result
  is the exception that leaves the loop, if any.
\<close>

definition process_video ::
  "config \<Rightarrow> world \<Rightarrow> state \<times> EpisodeNew list \<Rightarrow> exn option \<times> state \<times> EpisodeNew list" where
  "process_video cfg w st =
     (let (s, episodesForYaml) = st
      in case extractVideoUrl (JSON_parse cfg) (page_response w) (render_response w) of
           Inl e \<Rightarrow> (Some e, st)
         | Inr videoUrl \<Rightarrow>
             (case videoUrl of
                None \<Rightarrow> (None, st)
              | Some u \<Rightarrow>
                  if u = [] then (None, st)
                  else (let filename = filename_of cfg w;
                            (downloaded, s1) = downloadVideo cfg (download_response w) u filename s;
                            audioPath = audio_path cfg filename
                        in if downloaded
                           then (let (extracted, s2) = extractAudio cfg (ffmpeg_response w) filename s1
                                 in if \<not> extracted then (None, s2, episodesForYaml)
                                    else (None, tag_and_catalog cfg w audioPath (s2, episodesForYaml)))
                           else (None, tag_and_catalog cfg w audioPath (s1, episodesForYaml)))))"

fun process_videos ::
  "config \<Rightarrow> world list \<Rightarrow> state \<times> EpisodeNew list \<Rightarrow> exn option \<times> state \<times> EpisodeNew list" where
  "process_videos cfg [] st = (None, st)"
| "process_videos cfg (w # ws) st =
     (case process_video cfg w st of
        (Some e, st') \<Rightarrow> (Some e, st')
      | (None, st') \<Rightarrow> process_videos cfg ws st')"

text \<open>
  A run: the answers for the videos \<open>searchForVideos\<close> returned, in their order (\<open>None\<close>
  when the discovery throws), the template document if there is one, and whether writing
  the catalog succeeds.
\<close>

record run =
  discovered :: "world list option"
  template_doc :: "TemplateYaml option"
  write_ok :: bool

text \<open>
  \<open>main()\<close>, from the files and the persisted catalog to the exit code, the files with
  the events of the run, and the catalog. An exception that reaches the handler of
  \<open>main\<close> ends the process with code 1.
\<close>

definition main ::
  "config \<Rightarrow> run \<Rightarrow> state \<times> TemplateYaml option \<Rightarrow> nat \<times> state \<times> TemplateYaml option" where
  "main cfg r st =
     (let (s, catalog) = st
      in case discovered r of
           None \<Rightarrow> (1, s, catalog)
         | Some videos \<Rightarrow>
             if videos = [] then (0, s, catalog)
             else (case process_videos cfg videos (s, []) of
                     (Some e, s', episodesForYaml) \<Rightarrow> (1, s', catalog)
                   | (None, s', episodesForYaml) \<Rightarrow>
                       if GENERATE_YAML cfg \<and> episodesForYaml \<noteq> []
                       then (let doc = readYamlTemplateOrExisting catalog (template_doc r);
                                 updated = upsertEpisodes doc (sort_key pub_date episodesForYaml)
                             in (0, s', if write_ok r then Some updated else catalog))
                       else (0, s', catalog)))"

text \<open>Runs one after the other, each on the files and the catalog the one before left.\<close>

fun runs ::
  "config \<Rightarrow> run list \<Rightarrow> state \<times> TemplateYaml option \<Rightarrow> state \<times> TemplateYaml option" where
  "runs cfg [] st = st"
| "runs cfg (r # rs) st = runs cfg rs (snd (main cfg r st))"

section \<open>Vocabulary of the proofs\<close>

text \<open>Strategies 1 to 4 of the resolver, the ones that read the fetched page, find nothing.\<close>

definition static_miss :: "(string \<Rightarrow> VideoMetadata option) \<Rightarrow> page \<Rightarrow> bool" where
  "static_miss J html =
     (fusion_url J html = None \<and>
      \<not> truthy (or_else (video_source_src html) (video_src html)) \<and>
      \<not> truthy (or_else (script_media_url html) (script_assigned_url html)) \<and>
      (case or_else (or_else (data_video_src html) (data_src html)) (data_url html) of
         None \<Rightarrow> True
       | Some d \<Rightarrow> d = [] \<or> \<not> has_media_ext d))"

text \<open>The resolver gives a usable URL for the video, so that \<open>main\<close> goes on to acquire it.\<close>

definition resolved :: "config \<Rightarrow> world \<Rightarrow> bool" where
  "resolved cfg w =
     (case extractVideoUrl (JSON_parse cfg) (page_response w) (render_response w) of
        Inl e \<Rightarrow> False
      | Inr r \<Rightarrow> truthy r)"

definition is_Tag :: "event \<Rightarrow> bool" where
  "is_Tag e = (case e of Tag a \<Rightarrow> True | _ \<Rightarrow> False)"

definition tag_count :: "state \<Rightarrow> nat" where
  "tag_count s = length (filter is_Tag (events s))"

text \<open>
  Two runs see the same source site for a video: the same page, the same rendering and
  the same metadata; and they derive the same file name for it.
\<close>

definition same_site :: "config \<Rightarrow> world \<Rightarrow> world \<Rightarrow> bool" where
  "same_site cfg w1 w2 =
     (page_response w2 = page_response w1 \<and> render_response w2 = render_response w1 \<and>
      meta_response w2 = meta_response w1 \<and> filename_of cfg w2 = filename_of cfg w1)"

text \<open>The catalog entries a run prepares for videos whose audio exists already.\<close>

definition prepared :: "config \<Rightarrow> world \<Rightarrow> EpisodeNew list" where
  "prepared cfg w =
     (if GENERATE_YAML cfg
      then (case yaml_entry cfg w (audio_path cfg (filename_of cfg w)) of
              Inl e \<Rightarrow> []
            | Inr yamlEp \<Rightarrow> [yamlEp])
      else [])"

text \<open>
  What one iteration for a video with file name \<open>f\<close> may change: it removes no path but
  the video of \<open>f\<close>, creates no path but the two artifacts of \<open>f\<close>, leaves the files as they
  are when the audio of \<open>f\<close> exists, logs only events about \<open>f\<close>, and adds at most one
  catalog entry, for an audio file that exists.
\<close>

definition frame ::
  "config \<Rightarrow> string \<Rightarrow> state \<times> EpisodeNew list \<Rightarrow> state \<times> EpisodeNew list \<Rightarrow> bool" where
  "frame cfg f st st' =
     (files (fst st) - {video_path cfg f} \<subseteq> files (fst st') \<and>
      files (fst st') \<subseteq> insert (video_path cfg f) (insert (audio_path cfg f) (files (fst st))) \<and>
      (audio_path cfg f \<in> files (fst st) \<longrightarrow> files (fst st') = files (fst st)) \<and>
      (\<exists>new. events (fst st') = events (fst st) @ new \<and> list_all (about cfg f) new) \<and>
      (\<exists>add. snd st' = snd st @ add \<and> length add \<le> 1 \<and>
         list_all (\<lambda>e. file e = basename (audio_path cfg f) \<and> audio_path cfg f \<in> files (fst st')) add))"

section \<open>Concrete inputs\<close>

text \<open>
  The runtime at the inputs used below: two publish dates in March 2024, read in a time
  zone where they fall on the 4th and the 11th, and two instants of the clock, on the 5th
  and on the 6th.
\<close>

definition ex_dates :: date_api where
  "ex_dates =
     \<lparr>Date_parse = (\<lambda>s. if s = ''2024-03-04T10:00:00Z'' then Some 1709546400000
                         else if s = ''2024-03-11T10:00:00Z'' then Some 1710151200000
                         else None),
      getFullYear = (\<lambda>t. 2024),
      getMonth = (\<lambda>t. 2),
      getDate = (\<lambda>t. if t = 1709546400000 then 4 else 11),
      toISOString = (\<lambda>t. if t = 1709604000000 then ''2024-03-05T02:00:00.000Z''
                          else ''2024-03-06T02:00:00.000Z'')\<rparr>"

text \<open>
  An episode page with embedded metadata and a static \<open>video\<close> element. The segmented
  stream comes first in the list, the progressive one second.
\<close>

definition ex_blob :: string where
  \<open>ex_blob = ''{"streams":[{"stream_type":"ts","url":"https://v.example/ep.m3u8"},{"stream_type":"mp4","url":"https://v.example/ep.mp4"}]}''\<close>

definition ex_metadata :: VideoMetadata where
  "ex_metadata =
     \<lparr>streams = Some [Some \<lparr>stream_type = Some ''ts'', url = Some ''https://v.example/ep.m3u8''\<rparr>,
                      Some \<lparr>stream_type = Some ''mp4'', url = Some ''https://v.example/ep.mp4''\<rparr>]\<rparr>"

text \<open>
  A page whose first progressive stream has no URL, while a later progressive stream and
  a segmented stream have one.
\<close>

definition ex_blob_gap :: string where
  \<open>ex_blob_gap = ''{"streams":[{"stream_type":"mp4"},{"stream_type":"mp4","url":"https://v.example/ep.mp4"},{"stream_type":"ts","url":"https://v.example/ep.m3u8"}]}''\<close>

definition ex_metadata_gap :: VideoMetadata where
  "ex_metadata_gap =
     \<lparr>streams = Some [Some \<lparr>stream_type = Some ''mp4'', url = None\<rparr>,
                      Some \<lparr>stream_type = Some ''mp4'', url = Some ''https://v.example/ep.mp4''\<rparr>,
                      Some \<lparr>stream_type = Some ''ts'', url = Some ''https://v.example/ep.m3u8''\<rparr>]\<rparr>"

text \<open>A blob that is cut short, on which \<open>JSON.parse\<close> throws.\<close>

definition ex_blob_malformed :: string where
  \<open>ex_blob_malformed = ''{"streams":[{"stream_type":"mp4","url":"https://v.example/a}''\<close>

definition ex_JSON_parse :: "string \<Rightarrow> VideoMetadata option" where
  "ex_JSON_parse b =
     (if b = ex_blob then Some ex_metadata
      else if b = ex_blob_gap then Some ex_metadata_gap
      else None)"

definition ex_page :: page where
  "ex_page =
     \<lparr>fusion_match = Some ex_blob,
      video_source_src = Some ''https://v.example/markup.mp4'',
      video_src = None, script_media_url = None, script_assigned_url = None,
      data_video_src = None, data_src = None, data_url = None\<rparr>"

definition ex_page_blank :: page where
  "ex_page_blank =
     \<lparr>fusion_match = None, video_source_src = None,
      video_src = None, script_media_url = None, script_assigned_url = None,
      data_video_src = None, data_src = None, data_url = None\<rparr>"

definition ex_cfg :: config where
  "ex_cfg = \<lparr>DATA_DIR = ''/data'', GENERATE_YAML = True, dates = ex_dates, JSON_parse = ex_JSON_parse\<rparr>"

text \<open>
  The answers for one video: the page above, published on 4 March 2024, processed when
  the clock is on the 5th, with the download and the transcoding succeeding.
\<close>

definition ex_world :: world where
  "ex_world =
     \<lparr>page_response = Some (Text ex_page), render_response = RenderFailed,
      meta_response = \<lparr>meta_title = Some ''Sleep'', meta_description = None,
                        pubDate = Some ''2024-03-04T10:00:00Z''\<rparr>,
      clock_filename = 1709604000000, download_response = Downloaded,
      ffmpeg_response = Transcoded, clock_yaml = 1709604000000\<rparr>"

text \<open>The same answers, but the media request fails after a partial file was written.\<close>

definition ex_failing :: world where
  "ex_failing = ex_world\<lparr>download_response := DownloadFailed True True\<rparr>"

text \<open>The same answers, but the page request of the resolver fails.\<close>

definition ex_unreachable :: world where
  "ex_unreachable = ex_world\<lparr>page_response := None\<rparr>"

text \<open>The same answers, but the page has neither metadata nor markup to find a URL in.\<close>

definition ex_unresolvable :: world where
  "ex_unresolvable = ex_world\<lparr>page_response := Some (Text ex_page_blank)\<rparr>"

text \<open>
  The answers of a later run for a video: the site as before, the clock a day later, and
  a network and a transcoder that would fail if they were used.
\<close>

definition ex_rerun :: "world \<Rightarrow> world" where
  "ex_rerun w =
     w\<lparr>clock_filename := 1709690400000, download_response := DownloadFailed False False,
       ffmpeg_response := TranscodeFailed False, clock_yaml := 1709690400000\<rparr>"

text \<open>The same video on a page that gives no publish date.\<close>

definition ex_undated :: world where
  "ex_undated =
     ex_world\<lparr>meta_response := \<lparr>meta_title = Some ''Sleep'', meta_description = None, pubDate = None\<rparr>\<rparr>"

text \<open>The same answers, but axios hands back a parsed JSON value instead of the text.\<close>

definition ex_nontext :: world where
  "ex_nontext = ex_world\<lparr>page_response := Some NotText\<rparr>"

text \<open>The page with nothing to find, and a browser that fails to close.\<close>

definition ex_unclosed :: world where
  "ex_unclosed = ex_unresolvable\<lparr>render_response := CloseFailed\<rparr>"

text \<open>A media request that fails with a partial file that the cleanup cannot remove.\<close>

definition ex_uncleaned :: world where
  "ex_uncleaned = ex_world\<lparr>download_response := DownloadFailed True False\<rparr>"

text \<open>The undated video with a media request that fails.\<close>

definition ex_undated_failing :: world where
  "ex_undated_failing = ex_undated\<lparr>download_response := DownloadFailed True True\<rparr>"

text \<open>A second video without a publish date.\<close>

definition ex_undated2 :: world where
  "ex_undated2 =
     ex_world\<lparr>meta_response := \<lparr>meta_title = Some ''Stress'', meta_description = None, pubDate = None\<rparr>\<rparr>"

text \<open>A second video, published on 11 March 2024.\<close>

definition ex_world2 :: world where
  "ex_world2 =
     ex_world\<lparr>meta_response := \<lparr>meta_title = Some ''Stress'', meta_description = None,
                                   pubDate = Some ''2024-03-11T10:00:00Z''\<rparr>\<rparr>"

definition ex_video :: string where
  "ex_video = ''/data/Mental-Health-Mondays-2024-03-04.mp4''"

definition ex_audio :: string where
  "ex_audio = ''/data/Mental-Health-Mondays-2024-03-04.mp3''"

definition ex_fresh :: state where
  "ex_fresh = \<lparr>files = {}, events = []\<rparr>"

definition ex_video_only :: state where
  "ex_video_only = \<lparr>files = {ex_video}, events = []\<rparr>"

definition ex_both :: state where
  "ex_both = \<lparr>files = {ex_video, ex_audio}, events = []\<rparr>"

definition ex_run :: "world list \<Rightarrow> run" where
  "ex_run ws = \<lparr>discovered = Some ws, template_doc = None, write_ok = True\<rparr>"

text \<open>The files and the catalog a first run over the two videos leaves.\<close>

definition ex_acquired :: "state \<times> TemplateYaml option" where
  "ex_acquired = snd (main ex_cfg (ex_run [ex_world, ex_world2]) (ex_fresh, None))"

text \<open>A catalog with the ordinals 1 and 2, and new entries for it.\<close>

definition ex_entry :: "string \<Rightarrow> int \<Rightarrow> EpisodeNew" where
  "ex_entry f t =
     \<lparr>file = f, title = ''Mental Health Mondays'', description = [], pub_date = t,
      explicit = False, season = 1, episode_type = ''full''\<rparr>"

definition ex_catalog :: TemplateYaml where
  "ex_catalog =
     \<lparr>episodes = Some [with_episode (ex_entry ''A.mp3'' 100) 1, with_episode (ex_entry ''X.mp3'' 200) 2],
      other_keys = [(''title'', ''Mental Health Mondays'')]\<rparr>"

text \<open>
  The URL constructor at the addresses used below; a listing of three cards, the second
  with a relative address and the third repeating the address of the first; and a listing
  of two cards for one page, the addresses differing in the final slash.
\<close>

definition ex_urls :: url_api where
  "ex_urls =
     \<lparr>URL_new =
        (\<lambda>h. if h = ''https://www.wtap.com/2024/03/04/sleep/''
             then Some \<lparr>href = ''https://www.wtap.com/2024/03/04/sleep/'', pathname = ''/2024/03/04/sleep/''\<rparr>
             else if h = ''https://www.wtap.com/2024/03/04/sleep''
             then Some \<lparr>href = ''https://www.wtap.com/2024/03/04/sleep'', pathname = ''/2024/03/04/sleep''\<rparr>
             else None),
      URL_new_base =
        (\<lambda>h. if h = ''/2024/03/11/stress/''
             then Some \<lparr>href = ''https://www.wtap.com/2024/03/11/stress/'', pathname = ''/2024/03/11/stress/''\<rparr>
             else None)\<rparr>"

definition ex_listing :: listing where
  "ex_listing =
     \<lparr>cards = [\<lparr>card_href = Some ''https://www.wtap.com/2024/03/04/sleep/'',
                 card_heading = ''Sleep'', card_link_text = ''Watch''\<rparr>,
                \<lparr>card_href = Some ''/2024/03/11/stress/'',
                 card_heading = [], card_link_text = ''Stress''\<rparr>,
                \<lparr>card_href = Some ''https://www.wtap.com/2024/03/04/sleep/'',
                 card_heading = ''Sleep again'', card_link_text = ''Watch''\<rparr>],
      anchors = []\<rparr>"

definition ex_listing_slash :: listing where
  "ex_listing_slash =
     \<lparr>cards = [\<lparr>card_href = Some ''https://www.wtap.com/2024/03/04/sleep/'',
                 card_heading = ''Sleep'', card_link_text = ''Watch''\<rparr>,
                \<lparr>card_href = Some ''https://www.wtap.com/2024/03/04/sleep'',
                 card_heading = ''Sleep'', card_link_text = ''Watch''\<rparr>],
      anchors = []\<rparr>"

section \<open>One iteration of the loop of main\<close>

lemma mp4_to_mp3_stem: "mp4_to_mp3 (stem @ ''.mp4'') = stem @ ''.mp3''"
  by (simp add: mp4_to_mp3_def is_m_def is_p_def)

lemma buildFilename_stem:
  "\<exists>stem. buildFilenameFromPubDate api now pd = stem @ ''.mp4''"
  by (simp add: buildFilenameFromPubDate_def Let_def)

lemma filename_of_stem: "\<exists>stem. filename_of cfg w = stem @ ''.mp4''"
  unfolding filename_of_def by (rule buildFilename_stem)

lemma video_audio_distinct: "video_path cfg (a @ ''.mp4'') \<noteq> audio_path cfg (b @ ''.mp4'')"
proof
  assume "video_path cfg (a @ ''.mp4'') = audio_path cfg (b @ ''.mp4'')"
  then have "a @ ''.mp4'' = b @ ''.mp3''"
    by (simp add: video_path_def audio_path_def path_join_def mp4_to_mp3_stem)
  then have "last (a @ ''.mp4'') = last (b @ ''.mp3'')" by simp
  then show False by simp
qed

lemma video_path_inj: "video_path cfg f = video_path cfg g \<Longrightarrow> f = g"
  by (simp add: video_path_def path_join_def)

lemma audio_path_inj:
  "audio_path cfg (a @ ''.mp4'') = audio_path cfg (b @ ''.mp4'') \<Longrightarrow> a = b"
  by (simp add: audio_path_def path_join_def mp4_to_mp3_stem)

lemma downloadVideo_audio_present:
  "audio_path cfg f \<in> files s \<Longrightarrow> downloadVideo cfg net u f s = (False, s)"
  by (simp add: downloadVideo_def audio_path_def stat_def Let_def)

lemma downloadVideo_video_present:
  "audio_path cfg f \<notin> files s \<Longrightarrow> video_path cfg f \<in> files s \<Longrightarrow>
   downloadVideo cfg net u f s = (True, s)"
  by (simp add: downloadVideo_def audio_path_def video_path_def stat_def Let_def)

lemma downloadVideo_downloaded:
  "audio_path cfg f \<notin> files s \<Longrightarrow> video_path cfg f \<notin> files s \<Longrightarrow>
   downloadVideo cfg Downloaded u f s =
     (True, s\<lparr>files := insert (video_path cfg f) (files s),
              events := events s @ [Fetch u (video_path cfg f)]\<rparr>)"
  by (simp add: downloadVideo_def audio_path_def video_path_def stat_def Let_def
      write_file_def log_event_def)

lemma downloadVideo_failed:
  "audio_path cfg f \<notin> files s \<Longrightarrow> video_path cfg f \<notin> files s \<Longrightarrow>
   downloadVideo cfg (DownloadFailed partial cleaned) u f s =
     (False, s\<lparr>files := (if partial \<and> \<not> cleaned then insert (video_path cfg f) (files s) else files s),
               events := events s @ [Fetch u (video_path cfg f)]\<rparr>)"
  by (simp add: downloadVideo_def audio_path_def video_path_def stat_def Let_def
      write_file_def log_event_def unlink_def)

lemma extractAudio_transcoded:
  "video_path cfg f \<in> files s \<Longrightarrow> video_path cfg f \<noteq> audio_path cfg f \<Longrightarrow>
   extractAudio cfg Transcoded f s =
     (True, s\<lparr>files := insert (audio_path cfg f) (files s) - {video_path cfg f},
              events := events s @ [Transcode (video_path cfg f) (audio_path cfg f)]\<rparr>)"
  by (simp add: extractAudio_def audio_path_def video_path_def Let_def
      write_file_def log_event_def unlink_def)

lemma extractAudio_failed:
  "extractAudio cfg (TranscodeFailed left) f s =
     (False, s\<lparr>files := (if left then insert (audio_path cfg f) (files s) else files s),
               events := events s @ [Transcode (video_path cfg f) (audio_path cfg f)]\<rparr>)"
  by (simp add: extractAudio_def audio_path_def video_path_def Let_def
      write_file_def log_event_def)

lemma filename_paths_distinct: "video_path cfg (filename_of cfg w) \<noteq> audio_path cfg (filename_of cfg w)"
proof -
  obtain stem where "filename_of cfg w = stem @ ''.mp4''" using filename_of_stem by blast
  then show ?thesis by (simp add: video_audio_distinct)
qed

lemma tag_and_catalog_absent:
  "audioPath \<notin> files s \<Longrightarrow> tag_and_catalog cfg w audioPath (s, ys) = (s, ys)"
  by (simp add: tag_and_catalog_def stat_def)

lemma tag_and_catalog_present:
  "audioPath \<in> files s \<Longrightarrow>
   tag_and_catalog cfg w audioPath (s, ys) =
     (s\<lparr>events := events s @ [Tag audioPath]\<rparr>,
      if GENERATE_YAML cfg
      then (case yaml_entry cfg w audioPath of Inl e \<Rightarrow> ys | Inr yamlEp \<Rightarrow> ys @ [yamlEp])
      else ys)"
  by (simp add: tag_and_catalog_def stat_def log_event_def split: sum.splits)

lemma process_video_resolved:
  assumes "extractVideoUrl (JSON_parse cfg) (page_response w) (render_response w) = Inr (Some u)"
    and "u \<noteq> []"
  shows "process_video cfg w (s, ys) =
     (case downloadVideo cfg (download_response w) u (filename_of cfg w) s of
        (downloaded, s1) \<Rightarrow>
          if downloaded
          then (case extractAudio cfg (ffmpeg_response w) (filename_of cfg w) s1 of
                  (extracted, s2) \<Rightarrow>
                    if \<not> extracted then (None, s2, ys)
                    else (None, tag_and_catalog cfg w (audio_path cfg (filename_of cfg w)) (s2, ys)))
          else (None, tag_and_catalog cfg w (audio_path cfg (filename_of cfg w)) (s1, ys)))"
  using assms by (simp add: process_video_def Let_def split: prod.splits)

lemma process_video_video_only:
  assumes res: "extractVideoUrl (JSON_parse cfg) (page_response w) (render_response w) = Inr (Some u)"
    and u: "u \<noteq> []"
    and video: "video_path cfg (filename_of cfg w) \<in> files s"
    and audio: "audio_path cfg (filename_of cfg w) \<notin> files s"
  shows "downloadVideo cfg (download_response w) u (filename_of cfg w) s = (True, s)"
    and "ffmpeg_response w = Transcoded \<Longrightarrow>
         process_video cfg w (s, ys) =
           (None,
            tag_and_catalog cfg w (audio_path cfg (filename_of cfg w))
              (s\<lparr>files := insert (audio_path cfg (filename_of cfg w)) (files s)
                             - {video_path cfg (filename_of cfg w)},
                 events := events s @ [Transcode (video_path cfg (filename_of cfg w))
                                                 (audio_path cfg (filename_of cfg w))]\<rparr>, ys))"
    and "ffmpeg_response w = TranscodeFailed left \<Longrightarrow>
         process_video cfg w (s, ys) =
           (None,
            s\<lparr>files := (if left then insert (audio_path cfg (filename_of cfg w)) (files s) else files s),
              events := events s @ [Transcode (video_path cfg (filename_of cfg w))
                                              (audio_path cfg (filename_of cfg w))]\<rparr>, ys)"
proof -
  show d: "downloadVideo cfg (download_response w) u (filename_of cfg w) s = (True, s)"
    using video audio by (rule downloadVideo_video_present [rotated])
  show "ffmpeg_response w = Transcoded \<Longrightarrow>
         process_video cfg w (s, ys) =
           (None,
            tag_and_catalog cfg w (audio_path cfg (filename_of cfg w))
              (s\<lparr>files := insert (audio_path cfg (filename_of cfg w)) (files s)
                             - {video_path cfg (filename_of cfg w)},
                 events := events s @ [Transcode (video_path cfg (filename_of cfg w))
                                                 (audio_path cfg (filename_of cfg w))]\<rparr>, ys))"
    using video filename_paths_distinct [of cfg w]
    by (simp add: process_video_resolved [OF res u] d extractAudio_transcoded)
  show "ffmpeg_response w = TranscodeFailed left \<Longrightarrow>
         process_video cfg w (s, ys) =
           (None,
            s\<lparr>files := (if left then insert (audio_path cfg (filename_of cfg w)) (files s) else files s),
              events := events s @ [Transcode (video_path cfg (filename_of cfg w))
                                              (audio_path cfg (filename_of cfg w))]\<rparr>, ys)"
    by (simp add: process_video_resolved [OF res u] d extractAudio_failed)
qed

lemma process_video_unresolved:
  "extractVideoUrl (JSON_parse cfg) (page_response w) (render_response w) = Inr None \<Longrightarrow>
   process_video cfg w st = (None, st)"
  "extractVideoUrl (JSON_parse cfg) (page_response w) (render_response w) = Inr (Some []) \<Longrightarrow>
   process_video cfg w st = (None, st)"
  "extractVideoUrl (JSON_parse cfg) (page_response w) (render_response w) = Inl e \<Longrightarrow>
   process_video cfg w st = (Some e, st)"
  by (simp_all add: process_video_def split: prod.splits)

lemma process_video_download_failed:
  assumes res: "extractVideoUrl (JSON_parse cfg) (page_response w) (render_response w) = Inr (Some u)"
    and u: "u \<noteq> []"
    and video: "video_path cfg (filename_of cfg w) \<notin> files s"
    and audio: "audio_path cfg (filename_of cfg w) \<notin> files s"
    and net: "download_response w = DownloadFailed partial cleaned"
  shows "process_video cfg w (s, ys) =
           (None,
            s\<lparr>files := (if partial \<and> \<not> cleaned then insert (video_path cfg (filename_of cfg w)) (files s)
                         else files s),
              events := events s @ [Fetch u (video_path cfg (filename_of cfg w))]\<rparr>, ys)"
  using audio filename_paths_distinct [of cfg w]
  by (simp add: process_video_resolved [OF res u] net downloadVideo_failed [OF audio video]
      tag_and_catalog_absent)

lemma process_video_audio_present:
  assumes res: "extractVideoUrl (JSON_parse cfg) (page_response w) (render_response w) = Inr (Some u)"
    and u: "u \<noteq> []"
    and audio: "audio_path cfg (filename_of cfg w) \<in> files s"
  shows "process_video cfg w (s, ys) =
           (None, s\<lparr>events := events s @ [Tag (audio_path cfg (filename_of cfg w))]\<rparr>,
            if GENERATE_YAML cfg
            then (case yaml_entry cfg w (audio_path cfg (filename_of cfg w)) of
                    Inl e \<Rightarrow> ys | Inr yamlEp \<Rightarrow> ys @ [yamlEp])
            else ys)"
  using audio
  by (simp add: process_video_resolved [OF res u] downloadVideo_audio_present [OF audio]
      tag_and_catalog_present)

lemma process_video_downloaded:
  assumes res: "extractVideoUrl (JSON_parse cfg) (page_response w) (render_response w) = Inr (Some u)"
    and u: "u \<noteq> []"
    and video: "video_path cfg (filename_of cfg w) \<notin> files s"
    and audio: "audio_path cfg (filename_of cfg w) \<notin> files s"
    and net: "download_response w = Downloaded"
  shows "process_video cfg w (s, ys) =
           process_video cfg w
             (s\<lparr>files := insert (video_path cfg (filename_of cfg w)) (files s),
                events := events s @ [Fetch u (video_path cfg (filename_of cfg w))]\<rparr>, ys)"
proof -
  let ?s = "s\<lparr>files := insert (video_path cfg (filename_of cfg w)) (files s),
                events := events s @ [Fetch u (video_path cfg (filename_of cfg w))]\<rparr>"
  have a': "audio_path cfg (filename_of cfg w) \<notin> files ?s"
    using audio filename_paths_distinct [of cfg w] by auto
  have d2: "downloadVideo cfg Downloaded u (filename_of cfg w) ?s = (True, ?s)"
    using a' by (intro downloadVideo_video_present) simp_all
  show ?thesis
    by (simp add: process_video_resolved [OF res u] net
        downloadVideo_downloaded [OF audio video] d2)
qed

lemma frame_refl: "frame cfg f st st"
  by (auto simp: frame_def)

lemma yaml_entry_file: "yaml_entry cfg w audioPath = Inr e \<Longrightarrow> file e = basename audioPath"
  by (auto simp: yaml_entry_def Let_def split: option.splits if_splits)

lemma frame_tagged:
  assumes "audio_path cfg f \<in> files s"
  shows "frame cfg f (s, ys)
           (s\<lparr>events := events s @ [Tag (audio_path cfg f)]\<rparr>,
            if GENERATE_YAML cfg
            then (case yaml_entry cfg w (audio_path cfg f) of Inl e \<Rightarrow> ys | Inr yamlEp \<Rightarrow> ys @ [yamlEp])
            else ys)"
  using assms by (auto simp: frame_def about_def yaml_entry_file split: sum.splits)

lemma frame_video_only:
  assumes res: "extractVideoUrl (JSON_parse cfg) (page_response w) (render_response w) = Inr (Some u)"
    and u: "u \<noteq> []"
    and video: "video_path cfg (filename_of cfg w) \<in> files s"
    and audio: "audio_path cfg (filename_of cfg w) \<notin> files s"
  shows "frame cfg (filename_of cfg w) (s, ys) (snd (process_video cfg w (s, ys)))"
proof (cases "ffmpeg_response w")
  case Transcoded
  show ?thesis
    using audio video filename_paths_distinct [of cfg w]
    by (auto simp: process_video_video_only(2) [OF res u video audio Transcoded]
        tag_and_catalog_present frame_def about_def yaml_entry_file split: sum.splits)
next
  case (TranscodeFailed left)
  show ?thesis
    using audio video
    by (auto simp: process_video_video_only(3) [OF res u video audio TranscodeFailed]
        frame_def about_def)
qed

lemma process_video_frame:
  "frame cfg (filename_of cfg w) (s, ys) (snd (process_video cfg w (s, ys)))"
proof (cases "extractVideoUrl (JSON_parse cfg) (page_response w) (render_response w)")
  case (Inl e)
  then show ?thesis by (simp add: process_video_unresolved frame_refl)
next
  case (Inr r)
  show ?thesis
  proof (cases "\<exists>u. r = Some u \<and> u \<noteq> []")
    case False
    then have "r = None \<or> r = Some []" by (cases r) auto
    then show ?thesis using Inr by (auto simp: process_video_unresolved frame_refl)
  next
    case True
    then obtain u where r: "r = Some u" and u: "u \<noteq> []" by blast
    have res: "extractVideoUrl (JSON_parse cfg) (page_response w) (render_response w) = Inr (Some u)"
      using Inr r by simp
    let ?f = "filename_of cfg w"
    show ?thesis
    proof (cases "audio_path cfg ?f \<in> files s")
      case True
      then show ?thesis
        by (simp add: process_video_audio_present [OF res u True] frame_tagged)
    next
      case audio: False
      show ?thesis
      proof (cases "video_path cfg ?f \<in> files s")
        case True
        then show ?thesis using audio by (rule frame_video_only [OF res u])
      next
        case video: False
        show ?thesis
        proof (cases "download_response w")
          case (DownloadFailed partial cleaned)
          show ?thesis
            using audio
            by (auto simp: process_video_download_failed [OF res u video audio DownloadFailed]
                frame_def about_def)
        next
          case Downloaded
          let ?s = "s\<lparr>files := insert (video_path cfg ?f) (files s),
                        events := events s @ [Fetch u (video_path cfg ?f)]\<rparr>"
          have v': "video_path cfg ?f \<in> files ?s" by simp
          have a': "audio_path cfg ?f \<notin> files ?s"
            using audio filename_paths_distinct [of cfg w] by auto
          have "frame cfg ?f (?s, ys) (snd (process_video cfg w (?s, ys)))"
            using v' a' by (rule frame_video_only [OF res u])
          moreover have "process_video cfg w (s, ys) = process_video cfg w (?s, ys)"
            by (rule process_video_downloaded [OF res u video audio Downloaded])
          ultimately show ?thesis
            using audio by (auto simp: frame_def about_def)
        qed
      qed
    qed
  qed
qed

section \<open>Invariants of a run and of a sequence of runs\<close>

lemma process_videos_invariant:
  assumes step: "\<And>w s ys. w \<in> set ws \<Longrightarrow> P s \<Longrightarrow> P (fst (snd (process_video cfg w (s, ys))))"
    and init: "P s"
  shows "P (fst (snd (process_videos cfg ws (s, ys))))"
  using assms
proof (induction ws arbitrary: s ys)
  case Nil
  then show ?case by simp
next
  case (Cons w ws)
  obtain fatal s1 ys1 where pv: "process_video cfg w (s, ys) = (fatal, s1, ys1)"
    using prod_cases3 by blast
  have P1: "P s1" using Cons.prems(1) [of w s ys] Cons.prems(2) pv by simp
  show ?case
  proof (cases fatal)
    case None
    have "P (fst (snd (process_videos cfg ws (s1, ys1))))"
      using Cons.prems(1) P1 by (intro Cons.IH) simp_all
    then show ?thesis using pv None by simp
  next
    case (Some e)
    then show ?thesis using pv P1 by simp
  qed
qed

lemma main_state:
  "fst (snd (main cfg r (s, c))) =
     (case discovered r of
        None \<Rightarrow> s
      | Some videos \<Rightarrow> if videos = [] then s else fst (snd (process_videos cfg videos (s, []))))"
proof (cases "discovered r")
  case None
  then show ?thesis by (simp add: main_def)
next
  case (Some videos)
  obtain fatal s1 ys1 where pv: "process_videos cfg videos (s, []) = (fatal, s1, ys1)"
    using prod_cases3 by blast
  show ?thesis
  proof (cases fatal)
    case None
    then show ?thesis using Some pv by (simp add: main_def)
  next
    case (Some e)
    then show ?thesis using \<open>discovered r = Some videos\<close> pv by (simp add: main_def)
  qed
qed

lemma main_invariant:
  assumes step: "\<And>w s ys. P s \<Longrightarrow> P (fst (snd (process_video cfg w (s, ys))))"
    and init: "P s"
  shows "P (fst (snd (main cfg r (s, c))))"
proof (cases "discovered r")
  case None
  then show ?thesis using init by (simp add: main_state)
next
  case (Some videos)
  have inv: "P (fst (snd (process_videos cfg videos (s, []))))"
  proof (rule process_videos_invariant [where P = P])
    show "\<And>w s ys. w \<in> set videos \<Longrightarrow> P s \<Longrightarrow> P (fst (snd (process_video cfg w (s, ys))))"
      by (rule step)
    show "P s" by (rule init)
  qed
  show ?thesis using Some init inv by (simp add: main_state)
qed

lemma runs_invariant:
  assumes step: "\<And>w s ys. P s \<Longrightarrow> P (fst (snd (process_video cfg w (s, ys))))"
    and init: "P (fst st)"
  shows "P (fst (runs cfg rs st))"
  using init
proof (induction rs arbitrary: st)
  case Nil
  then show ?case by simp
next
  case (Cons r rs)
  obtain s c where st: "st = (s, c)" by (cases st)
  have "P (fst (snd (main cfg r (s, c))))"
  proof (rule main_invariant [where P = P])
    show "\<And>w s ys. P s \<Longrightarrow> P (fst (snd (process_video cfg w (s, ys))))" by (rule step)
    show "P s" using Cons.prems st by simp
  qed
  then have "P (fst (runs cfg rs (snd (main cfg r (s, c)))))" by (rule Cons.IH)
  then show ?case using st by simp
qed

lemma step_keeps_both:
  assumes f: "f = filename_of cfg w0"
    and both: "video_path cfg f \<in> files s \<and> audio_path cfg f \<in> files s"
  shows "video_path cfg f \<in> files (fst (snd (process_video cfg w (s, ys)))) \<and>
         audio_path cfg f \<in> files (fst (snd (process_video cfg w (s, ys))))"
proof (cases "filename_of cfg w = f")
  case True
  then show ?thesis
    using process_video_frame [of cfg w s ys] both by (simp add: frame_def)
next
  case False
  obtain a where a: "f = a @ ''.mp4''" using f filename_of_stem by blast
  obtain b where b: "filename_of cfg w = b @ ''.mp4''" using filename_of_stem by blast
  have "video_path cfg f \<noteq> video_path cfg (filename_of cfg w)"
    using False video_path_inj by blast
  moreover have "audio_path cfg f \<noteq> video_path cfg (filename_of cfg w)"
    using video_audio_distinct [of cfg b a] a b by simp
  ultimately show ?thesis
    using process_video_frame [of cfg w s ys] both by (auto simp: frame_def)
qed

lemma step_removes_video_only_by_transcode:
  assumes before: "video_path cfg f \<in> files s"
    and after: "video_path cfg f \<notin> files (fst (snd (process_video cfg w (s, ys))))"
  shows "filename_of cfg w = f \<and> ffmpeg_response w = Transcoded \<and>
         audio_path cfg f \<in> files (fst (snd (process_video cfg w (s, ys)))) \<and>
         Transcode (video_path cfg f) (audio_path cfg f)
           \<in> set (events (fst (snd (process_video cfg w (s, ys)))))"
proof -
  have fr: "frame cfg (filename_of cfg w) (s, ys) (snd (process_video cfg w (s, ys)))"
    by (rule process_video_frame)
  have fw: "filename_of cfg w = f"
    using fr before after video_path_inj [of cfg f "filename_of cfg w"] by (auto simp: frame_def)
  have audio: "audio_path cfg f \<notin> files s"
    using fr before after fw by (auto simp: frame_def)
  have changed: "snd (process_video cfg w (s, ys)) \<noteq> (s, ys)"
    using before after by auto
  obtain u where res: "extractVideoUrl (JSON_parse cfg) (page_response w) (render_response w) = Inr (Some u)"
    and u: "u \<noteq> []"
  proof (cases "extractVideoUrl (JSON_parse cfg) (page_response w) (render_response w)")
    case (Inl e)
    then show ?thesis using changed by (simp add: process_video_unresolved)
  next
    case (Inr r)
    show ?thesis
    proof (cases r)
      case None
      then show ?thesis using Inr changed by (simp add: process_video_unresolved)
    next
      case (Some a)
      show ?thesis
      proof (cases "a = []")
        case True
        then show ?thesis using Inr Some changed by (simp add: process_video_unresolved)
      next
        case False
        then show ?thesis using Inr Some that by simp
      qed
    qed
  qed
  show ?thesis
  proof (cases "ffmpeg_response w")
    case Transcoded
    show ?thesis
      using fw Transcoded before audio filename_paths_distinct [of cfg w]
        process_video_video_only(2) [OF res u _ _ Transcoded, of s ys]
      by (simp add: tag_and_catalog_present)
  next
    case (TranscodeFailed left)
    then show ?thesis
      using fw before audio after process_video_video_only(3) [OF res u _ _ TranscodeFailed, of s ys]
      by (auto split: if_splits)
  qed
qed

section \<open>Artifacts of one file name across the other iterations\<close>

lemma about_unique:
  assumes "f = a @ ''.mp4''" and "g = b @ ''.mp4''" and "about cfg f e" and "about cfg g e"
  shows "f = g"
  using assms
  by (cases e) (auto simp: about_def dest: video_path_inj audio_path_inj)

lemma other_step_keeps_absent:
  assumes diff: "filename_of cfg w' \<noteq> filename_of cfg w"
    and Q: "video_path cfg (filename_of cfg w) \<notin> files s \<and>
            audio_path cfg (filename_of cfg w) \<notin> files s \<and>
            filter (about cfg (filename_of cfg w)) (events s) = E"
  shows "video_path cfg (filename_of cfg w) \<notin> files (fst (snd (process_video cfg w' (s, ys)))) \<and>
         audio_path cfg (filename_of cfg w) \<notin> files (fst (snd (process_video cfg w' (s, ys)))) \<and>
         filter (about cfg (filename_of cfg w)) (events (fst (snd (process_video cfg w' (s, ys))))) = E"
proof -
  let ?f = "filename_of cfg w" and ?g = "filename_of cfg w'"
  let ?s' = "fst (snd (process_video cfg w' (s, ys)))"
  obtain a where a: "?f = a @ ''.mp4''" using filename_of_stem by blast
  obtain b where b: "?g = b @ ''.mp4''" using filename_of_stem by blast
  have ab: "a \<noteq> b" using diff a b by auto
  have fr: "frame cfg ?g (s, ys) (snd (process_video cfg w' (s, ys)))"
    by (rule process_video_frame)
  have d1: "video_path cfg ?f \<noteq> video_path cfg ?g" using diff video_path_inj by metis
  have d2: "video_path cfg ?f \<noteq> audio_path cfg ?g" using video_audio_distinct a b by metis
  have d3: "audio_path cfg ?f \<noteq> video_path cfg ?g" using video_audio_distinct a b by metis
  have d4: "audio_path cfg ?f \<noteq> audio_path cfg ?g" using audio_path_inj a b ab by metis
  have sub: "files ?s' \<subseteq> insert (video_path cfg ?g) (insert (audio_path cfg ?g) (files s))"
    using fr by (simp add: frame_def)
  obtain new where ev: "events ?s' = events s @ new" and ab_new: "list_all (about cfg ?g) new"
    using fr by (auto simp: frame_def)
  have "filter (about cfg ?f) new = []"
  proof -
    have "\<forall>e\<in>set new. \<not> about cfg ?f e"
    proof
      fix e assume "e \<in> set new"
      then have "about cfg ?g e" using ab_new by (simp add: list_all_iff)
      then show "\<not> about cfg ?f e" using about_unique [OF a b, of cfg e] diff by auto
    qed
    then show ?thesis by (simp add: filter_empty_conv)
  qed
  then have "filter (about cfg ?f) (events ?s') = E" using ev Q by simp
  moreover have "video_path cfg ?f \<notin> files ?s'" using sub Q d1 d2 by auto
  moreover have "audio_path cfg ?f \<notin> files ?s'" using sub Q d3 d4 by auto
  ultimately show ?thesis by simp
qed

section \<open>The catalog merge\<close>

lemma file_with_episode [simp]: "file (with_episode ep n) = file ep"
  by (simp add: with_episode_def)

lemma ordinal_with_episode [simp]: "ordinal (with_episode ep n) = n"
  by (simp add: with_episode_def ordinal_def)

lemma upsert_loop_skip:
  "file x \<in> F \<Longrightarrow> upsert_loop (pre @ x # post) eps F n = upsert_loop (pre @ post) eps F n"
  by (induction pre arbitrary: eps F n) auto

lemma upsert_loop_survivors:
  "upsert_loop new eps F n = eps @ number_from n (survivors F new)"
  by (induction new arbitrary: eps F n) auto

lemma survivors_fresh: "e \<in> set (survivors F new) \<Longrightarrow> file e \<notin> F"
  by (induction new arbitrary: F) (auto split: if_splits)

lemma files_number_from [simp]: "map file (number_from n xs) = map file xs"
  by (induction xs arbitrary: n) auto

lemma number_from_ge: "e \<in> set (number_from n xs) \<Longrightarrow> n \<le> ordinal e"
proof (induction xs arbitrary: n)
  case Nil
  then show ?case by simp
next
  case (Cons x xs)
  from Cons.prems have "e = with_episode x n \<or> e \<in> set (number_from (n + 1) xs)" by simp
  then show ?case
  proof
    assume "e = with_episode x n" then show ?thesis by simp
  next
    assume "e \<in> set (number_from (n + 1) xs)"
    then have "n + 1 \<le> ordinal e" by (rule Cons.IH)
    then show ?thesis by simp
  qed
qed

lemma sorted_number_from: "sorted (map ordinal (number_from n xs))"
proof (induction xs arbitrary: n)
  case Nil
  then show ?case by simp
next
  case (Cons x xs)
  have "\<forall>e\<in>set (number_from (n + 1) xs). n \<le> ordinal e"
    using number_from_ge [of _ "n + 1" xs] by force
  with Cons show ?case by simp
qed

lemma existingMax_foldl: "foldl (\<lambda>m e. max m (ordinal e)) a eps = Max (insert a (ordinal ` set eps))"
proof (induction eps arbitrary: a)
  case Nil
  then show ?case by simp
next
  case (Cons e eps)
  show ?case
  proof (cases "eps = []")
    case True
    then show ?thesis by simp
  next
    case False
    then have ne: "ordinal ` set eps \<noteq> {}" by simp
    have fin: "finite (ordinal ` set eps)" by simp
    show ?thesis using Cons.IH [of "max a (ordinal e)"] ne fin
      by (simp add: max.assoc)
  qed
qed

lemma existingMax_Max: "existingMax eps = Max (insert 0 (ordinal ` set eps))"
  by (simp add: existingMax_def existingMax_foldl)

lemma existingMax_ge: "e \<in> set eps \<Longrightarrow> ordinal e \<le> existingMax eps"
  by (simp add: existingMax_Max)

lemma insort_key_before:
  "\<forall>y\<in>set ys. f x < f y \<Longrightarrow> insort_key f x (xs @ ys) = insort_key f x xs @ ys"
  by (induction xs) (auto simp: insort_is_Cons less_imp_le)

lemma sort_key_append_above:
  fixes f :: "'a \<Rightarrow> int"
  assumes "sorted (map f ys)" and "\<forall>x\<in>set xs. \<forall>y\<in>set ys. f x < f y"
  shows "sort_key f (xs @ ys) = sort_key f xs @ ys"
  using assms
proof (induction xs)
  case Nil
  then show ?case by (simp add: sort_key_id_if_sorted)
next
  case (Cons x xs)
  then have "sort_key f (xs @ ys) = sort_key f xs @ ys" by simp
  moreover have "\<forall>y\<in>set ys. f x < f y" using Cons.prems by simp
  ultimately show ?case by (simp add: insort_key_before)
qed

lemma entries_upsert:
  "entries (upsertEpisodes doc new) =
     sort_key ordinal (entries doc) @
     number_from (existingMax (entries doc) + 1) (survivors (set (map file (entries doc))) new)"
proof -
  let ?eps = "entries doc"
  let ?ys = "number_from (existingMax ?eps + 1) (survivors (set (map file ?eps)) new)"
  have above: "\<forall>x\<in>set ?eps. \<forall>y\<in>set ?ys. ordinal x < ordinal y"
  proof (intro ballI)
    fix x y assume "x \<in> set ?eps" and "y \<in> set ?ys"
    then have "ordinal x \<le> existingMax ?eps" and "existingMax ?eps + 1 \<le> ordinal y"
      by (simp_all add: existingMax_ge number_from_ge)
    then show "ordinal x < ordinal y" by simp
  qed
  have "entries (upsertEpisodes doc new) = sort_key ordinal (?eps @ ?ys)"
    by (simp add: upsertEpisodes_def Let_def upsert_loop_survivors entries_def)
  also have "\<dots> = sort_key ordinal ?eps @ ?ys"
    using sorted_number_from above by (rule sort_key_append_above)
  finally show ?thesis .
qed

lemma upsertEpisodes_drop_duplicate:
  assumes "file x \<in> set (map file (entries doc))"
  shows "upsertEpisodes doc (pre @ x # post) = upsertEpisodes doc (pre @ post)"
  using assms by (simp add: upsertEpisodes_def Let_def upsert_loop_skip)

lemma survivors_none: "set (map file new) \<subseteq> F \<Longrightarrow> survivors F new = []"
  by (induction new) auto

lemma number_from_file: "e \<in> set (number_from n xs) \<Longrightarrow> \<exists>e'\<in>set xs. file e' = file e"
  by (induction xs arbitrary: n) auto

lemma filter_number_from_fresh:
  assumes "f \<in> F"
  shows "filter (\<lambda>e. file e = f) (number_from n (survivors F new)) = []"
proof -
  have "\<forall>e\<in>set (number_from n (survivors F new)). file e \<noteq> f"
  proof
    fix e assume "e \<in> set (number_from n (survivors F new))"
    then obtain e' where "e' \<in> set (survivors F new)" and "file e' = file e"
      using number_from_file by blast
    then show "file e \<noteq> f" using survivors_fresh assms by metis
  qed
  then show ?thesis by (simp add: filter_empty_conv)
qed

lemma episode_with_episode [simp]: "episode (with_episode ep n) = Some n"
  by (simp add: with_episode_def)

lemma existingMax_one_two:
  assumes "set (map episode eps) = {Some 1, Some 2}"
  shows "existingMax eps = 2"
proof -
  have "ordinal ` set eps = (\<lambda>v. case v of None \<Rightarrow> 0 | Some n \<Rightarrow> n) ` set (map episode eps)"
    by (auto simp: ordinal_def image_iff)
  also have "\<dots> = {1, 2}" unfolding assms by simp
  finally show ?thesis by (simp add: existingMax_Max)
qed

lemma sort_key_pair:
  fixes f :: "'a \<Rightarrow> int"
  shows "sort_key f [a, b] = (if f a \<le> f b then [a, b] else [b, a])"
  by simp

lemma merge_two_new:
  assumes ords: "set (map episode (entries doc)) = {Some 1, Some 2}"
    and a: "file a \<notin> set (map file (entries doc))"
    and b: "file b \<notin> set (map file (entries doc))"
    and ab: "file a \<noteq> file b"
  shows "entries (upsertEpisodes doc (sort_key pub_date [a, b])) =
           sort_key ordinal (entries doc) @
           (if pub_date a \<le> pub_date b then [with_episode a 3, with_episode b 4]
            else [with_episode b 3, with_episode a 4])"
proof -
  have m: "existingMax (entries doc) + 1 = 3"
    using existingMax_one_two [OF ords] by simp
  show ?thesis
  proof (cases "pub_date a \<le> pub_date b")
    case True
    then have "sort_key pub_date [a, b] = [a, b]" by simp
    then show ?thesis using True a b ab by (simp add: entries_upsert m)
  next
    case False
    then have "sort_key pub_date [a, b] = [b, a]" by simp
    then show ?thesis using False a b ab by (simp add: entries_upsert m)
  qed
qed

section \<open>The resolver, the file names and the discovery\<close>

lemma fusion_url_truthy: "fusion_url J html = None \<or> truthy (fusion_url J html)"
  by (auto simp: fusion_url_def metadata_url_def truthy_def split: option.splits sum.splits if_splits)

lemma extractVideoUrl_fetched:
  "rendered \<noteq> CloseFailed \<Longrightarrow>
   \<exists>r. extractVideoUrl J (Some (Text html)) rendered = Inr r \<and> (r = None \<or> truthy r)"
  by (cases rendered) (auto simp: extractVideoUrl_def Let_def)

lemma extractVideoUrl_malformed:
  assumes "fusion_match html = Some blob" and "J blob = None" and "truthy (video_source_src html)"
  shows "extractVideoUrl J (Some (Text html)) rendered = Inr (video_source_src html)"
  using assms by (simp add: extractVideoUrl_def Let_def fusion_url_def or_else_def truthy_def)

lemma extractVideoUrl_null_entry:
  assumes "fusion_match html = Some blob" and "J blob = Some md" and "metadata_url md = Inl e"
    and "truthy (video_source_src html)"
  shows "extractVideoUrl J (Some (Text html)) rendered = Inr (video_source_src html)"
  using assms by (simp add: extractVideoUrl_def Let_def fusion_url_def or_else_def truthy_def)

lemma extractVideoUrl_all_miss:
  assumes "fusion_url J html = None"
    and "\<not> truthy (video_source_src html)" and "\<not> truthy (video_src html)"
    and "\<not> truthy (script_media_url html)" and "\<not> truthy (script_assigned_url html)"
    and "\<not> truthy (data_video_src html)" and "\<not> truthy (data_src html)" and "\<not> truthy (data_url html)"
    and "rendered = RenderFailed \<or> (\<exists>d c. rendered = Rendered d c \<and> \<not> truthy d \<and> \<not> truthy c)"
  shows "extractVideoUrl J (Some (Text html)) rendered = Inr None"
  using assms by (auto simp: extractVideoUrl_def Let_def or_else_def truthy_def)

lemma extractVideoUrl_fetch_failed: "extractVideoUrl J None rendered = Inl FetchError"
  by (simp add: extractVideoUrl_def)








lemma foldl_push_unique:
  "foldl push_unique acc vs =
     acc @ first_seen (filter (\<lambda>v. v_url v \<notin> set (map v_url acc)) vs)"
proof (induction vs arbitrary: acc)
  case Nil
  then show ?case by simp
next
  case (Cons v vs)
  show ?case
  proof (cases "v_url v \<in> set (map v_url acc)")
    case True
    then show ?thesis using Cons.IH [of acc] by (simp add: push_unique_def)
  next
    case False
    have "filter (\<lambda>x. v_url x \<notin> set (map v_url (acc @ [v]))) vs =
          filter (\<lambda>x. v_url x \<noteq> v_url v) (filter (\<lambda>x. v_url x \<notin> set (map v_url acc)) vs)"
      by (induction vs) auto
    then show ?thesis using False Cons.IH [of "acc @ [v]"] by (simp add: push_unique_def)
  qed
qed

lemma foldl_card_step:
  "foldl (card_step api) acc cs = foldl push_unique acc (List.map_filter (card_candidate api) cs)"
  by (induction cs arbitrary: acc) (auto simp: card_step_def List.map_filter_def split: option.splits)

lemma foldl_anchor_step:
  "foldl (anchor_step api) acc cs = foldl push_unique acc (List.map_filter (anchor_candidate api) cs)"
  by (induction cs arbitrary: acc) (auto simp: anchor_step_def List.map_filter_def split: option.splits)

lemma first_seen_subset: "set (first_seen vs) \<subseteq> set vs"
  by (induction vs rule: first_seen.induct) auto

lemma distinct_first_seen: "distinct (map v_url (first_seen vs))"
proof (induction vs rule: first_seen.induct)
  case 1
  then show ?case by simp
next
  case (2 v vs)
  let ?rest = "first_seen (filter (\<lambda>x. v_url x \<noteq> v_url v) vs)"
  have "set ?rest \<subseteq> set (filter (\<lambda>x. v_url x \<noteq> v_url v) vs)"
    by (rule first_seen_subset)
  then have "v_url v \<notin> set (map v_url ?rest)" by auto
  moreover have "distinct (map v_url ?rest)" by (rule "2.IH")
  ultimately show ?case by simp
qed

lemma first_seen_Nil_iff: "first_seen vs = [] \<longleftrightarrow> vs = []"
  by (cases vs) auto

section \<open>Runs that tag every discovered video\<close>

lemma resolved_iff:
  "resolved cfg w \<longleftrightarrow>
   (\<exists>u. extractVideoUrl (JSON_parse cfg) (page_response w) (render_response w) = Inr (Some u) \<and> u \<noteq> [])"
  by (auto simp: resolved_def truthy_def split: sum.splits option.splits)

lemma process_video_not_resolved:
  assumes "\<not> resolved cfg w"
  shows "snd (process_video cfg w st) = st"
proof (cases "extractVideoUrl (JSON_parse cfg) (page_response w) (render_response w)")
  case (Inl e)
  then show ?thesis by (simp add: process_video_unresolved)
next
  case (Inr r)
  then have "r = None \<or> r = Some []" using assms by (cases r) (auto simp: resolved_iff)
  then show ?thesis using Inr by (auto simp: process_video_unresolved)
qed

lemma process_video_fatal_unchanged:
  assumes "fst (process_video cfg w st) \<noteq> None"
  shows "snd (process_video cfg w st) = st"
proof (cases "resolved cfg w")
  case False
  then show ?thesis by (rule process_video_not_resolved)
next
  case True
  then obtain u where res: "extractVideoUrl (JSON_parse cfg) (page_response w) (render_response w) = Inr (Some u)"
    and u: "u \<noteq> []" by (auto simp: resolved_iff)
  obtain s ys where st: "st = (s, ys)" by (cases st)
  have "fst (process_video cfg w (s, ys)) = None"
    by (simp add: process_video_resolved [OF res u] split: prod.splits)
  then show ?thesis using assms st by simp
qed

lemma process_video_audio_present_prepared:
  assumes "resolved cfg w" and "audio_path cfg (filename_of cfg w) \<in> files s"
  shows "process_video cfg w (s, ys) =
           (None, s\<lparr>events := events s @ [Tag (audio_path cfg (filename_of cfg w))]\<rparr>,
            ys @ prepared cfg w)"
proof -
  obtain u where res: "extractVideoUrl (JSON_parse cfg) (page_response w) (render_response w) = Inr (Some u)"
    and u: "u \<noteq> []" using assms(1) by (auto simp: resolved_iff)
  show ?thesis
    by (simp add: process_video_audio_present [OF res u assms(2)] prepared_def split: sum.splits)
qed

text \<open>What a step that logs a tag has done.\<close>

lemma process_video_tags:
  "\<exists>new. events (fst (snd (process_video cfg w (s, ys)))) = events s @ new \<and>
         length (filter is_Tag new) \<le> 1 \<and>
         (filter is_Tag new \<noteq> [] \<longrightarrow>
            fst (process_video cfg w (s, ys)) = None \<and> resolved cfg w \<and>
            audio_path cfg (filename_of cfg w) \<in> files (fst (snd (process_video cfg w (s, ys)))) \<and>
            snd (snd (process_video cfg w (s, ys))) = ys @ prepared cfg w)"
proof (cases "resolved cfg w")
  case False
  then have "snd (process_video cfg w (s, ys)) = (s, ys)" by (rule process_video_not_resolved)
  then show ?thesis by simp
next
  case True
  then obtain u where res: "extractVideoUrl (JSON_parse cfg) (page_response w) (render_response w) = Inr (Some u)"
    and u: "u \<noteq> []" by (auto simp: resolved_iff)
  let ?f = "filename_of cfg w"
  have video_case: "\<And>t::state. video_path cfg ?f \<in> files t \<Longrightarrow> audio_path cfg ?f \<notin> files t \<Longrightarrow>
     \<exists>new. events (fst (snd (process_video cfg w (t, ys)))) = events t @ new \<and>
         length (filter is_Tag new) \<le> 1 \<and>
         (filter is_Tag new \<noteq> [] \<longrightarrow>
            fst (process_video cfg w (t, ys)) = None \<and> resolved cfg w \<and>
            audio_path cfg ?f \<in> files (fst (snd (process_video cfg w (t, ys)))) \<and>
            snd (snd (process_video cfg w (t, ys))) = ys @ prepared cfg w)"
  proof -
    fix t :: state assume v: "video_path cfg ?f \<in> files t" and a: "audio_path cfg ?f \<notin> files t"
    show "\<exists>new. events (fst (snd (process_video cfg w (t, ys)))) = events t @ new \<and>
         length (filter is_Tag new) \<le> 1 \<and>
         (filter is_Tag new \<noteq> [] \<longrightarrow>
            fst (process_video cfg w (t, ys)) = None \<and> resolved cfg w \<and>
            audio_path cfg ?f \<in> files (fst (snd (process_video cfg w (t, ys)))) \<and>
            snd (snd (process_video cfg w (t, ys))) = ys @ prepared cfg w)"
    proof (cases "ffmpeg_response w")
      case Transcoded
      have "events (fst (snd (process_video cfg w (t, ys)))) =
              events t @ [Transcode (video_path cfg ?f) (audio_path cfg ?f), Tag (audio_path cfg ?f)]"
        and "fst (process_video cfg w (t, ys)) = None"
        and "audio_path cfg ?f \<in> files (fst (snd (process_video cfg w (t, ys))))"
        and "snd (snd (process_video cfg w (t, ys))) = ys @ prepared cfg w"
        using filename_paths_distinct [of cfg w]
        by (simp_all add: process_video_video_only(2) [OF res u v a Transcoded]
            tag_and_catalog_present prepared_def split: sum.splits)
      then show ?thesis using True
        by (intro exI [of _ "[Transcode (video_path cfg ?f) (audio_path cfg ?f), Tag (audio_path cfg ?f)]"])
           (simp add: is_Tag_def)
    next
      case (TranscodeFailed left)
      have "events (fst (snd (process_video cfg w (t, ys)))) =
              events t @ [Transcode (video_path cfg ?f) (audio_path cfg ?f)]"
        by (simp add: process_video_video_only(3) [OF res u v a TranscodeFailed])
      then show ?thesis
        by (intro exI [of _ "[Transcode (video_path cfg ?f) (audio_path cfg ?f)]"])
           (simp add: is_Tag_def)
    qed
  qed
  show ?thesis
  proof (cases "audio_path cfg ?f \<in> files s")
    case audio: True
    show ?thesis
      using True audio
      by (intro exI [of _ "[Tag (audio_path cfg ?f)]"])
         (simp add: process_video_audio_present_prepared [OF True audio] is_Tag_def)
  next
    case audio: False
    show ?thesis
    proof (cases "video_path cfg ?f \<in> files s")
      case True
      then show ?thesis using audio by (rule video_case)
    next
      case video: False
      show ?thesis
      proof (cases "download_response w")
        case (DownloadFailed partial cleaned)
        show ?thesis
          by (intro exI [of _ "[Fetch u (video_path cfg ?f)]"])
             (simp add: process_video_download_failed [OF res u video audio DownloadFailed] is_Tag_def)
      next
        case Downloaded
        let ?t = "s\<lparr>files := insert (video_path cfg ?f) (files s),
                      events := events s @ [Fetch u (video_path cfg ?f)]\<rparr>"
        have eq: "process_video cfg w (s, ys) = process_video cfg w (?t, ys)"
          by (rule process_video_downloaded [OF res u video audio Downloaded])
        have v': "video_path cfg ?f \<in> files ?t" by simp
        have a': "audio_path cfg ?f \<notin> files ?t"
          using audio filename_paths_distinct [of cfg w] by auto
        obtain new where n: "events (fst (snd (process_video cfg w (?t, ys)))) = events ?t @ new"
          "length (filter is_Tag new) \<le> 1"
          "filter is_Tag new \<noteq> [] \<longrightarrow>
            fst (process_video cfg w (?t, ys)) = None \<and> resolved cfg w \<and>
            audio_path cfg ?f \<in> files (fst (snd (process_video cfg w (?t, ys)))) \<and>
            snd (snd (process_video cfg w (?t, ys))) = ys @ prepared cfg w"
          using video_case [OF v' a'] by blast
        show ?thesis
          unfolding eq using n
          by (intro exI [of _ "Fetch u (video_path cfg ?f) # new"]) (simp add: is_Tag_def)
      qed
    qed
  qed
qed

lemma step_tag_count:
  "tag_count (fst (snd (process_video cfg w (s, ys)))) \<le> tag_count s + 1 \<and>
   (tag_count (fst (snd (process_video cfg w (s, ys)))) = tag_count s + 1 \<longrightarrow>
      fst (process_video cfg w (s, ys)) = None \<and> resolved cfg w \<and>
      audio_path cfg (filename_of cfg w) \<in> files (fst (snd (process_video cfg w (s, ys)))) \<and>
      snd (snd (process_video cfg w (s, ys))) = ys @ prepared cfg w)"
proof -
  obtain new where n: "events (fst (snd (process_video cfg w (s, ys)))) = events s @ new"
    "length (filter is_Tag new) \<le> 1"
    "filter is_Tag new \<noteq> [] \<longrightarrow>
            fst (process_video cfg w (s, ys)) = None \<and> resolved cfg w \<and>
            audio_path cfg (filename_of cfg w) \<in> files (fst (snd (process_video cfg w (s, ys)))) \<and>
            snd (snd (process_video cfg w (s, ys))) = ys @ prepared cfg w"
    using process_video_tags [of cfg w s ys] by blast
  have c: "tag_count (fst (snd (process_video cfg w (s, ys)))) = tag_count s + length (filter is_Tag new)"
    by (simp add: tag_count_def n(1))
  show ?thesis
  proof (cases "filter is_Tag new = []")
    case True
    then show ?thesis using c by simp
  next
    case False
    then show ?thesis using c n(2) n(3) by simp
  qed
qed

lemma process_videos_tag_bound:
  "tag_count (fst (snd (process_videos cfg ws (s, ys)))) \<le> tag_count s + length ws"
proof (induction ws arbitrary: s ys)
  case Nil
  then show ?case by simp
next
  case (Cons w ws)
  obtain fatal s1 ys1 where pv: "process_video cfg w (s, ys) = (fatal, s1, ys1)"
    using prod_cases3 by blast
  have b1: "tag_count s1 \<le> tag_count s + 1" using step_tag_count [of cfg w s ys] pv by simp
  show ?case
  proof (cases fatal)
    case None
    have "tag_count (fst (snd (process_videos cfg ws (s1, ys1)))) \<le> tag_count s1 + length ws"
      by (rule Cons.IH)
    then show ?thesis using pv None b1 by simp
  next
    case (Some e)
    then show ?thesis using pv b1 by simp
  qed
qed

lemma audio_kept_step:
  assumes "audio_path cfg (filename_of cfg w0) \<in> files s"
  shows "audio_path cfg (filename_of cfg w0) \<in> files (fst (snd (process_video cfg w (s, ys))))"
proof -
  obtain a where a: "filename_of cfg w0 = a @ ''.mp4''" using filename_of_stem by blast
  obtain b where b: "filename_of cfg w = b @ ''.mp4''" using filename_of_stem by blast
  have "audio_path cfg (filename_of cfg w0) \<noteq> video_path cfg (filename_of cfg w)"
    using video_audio_distinct [of cfg b a] a b by simp
  then show ?thesis
    using process_video_frame [of cfg w s ys] assms by (auto simp: frame_def)
qed

lemma audio_kept:
  assumes "audio_path cfg (filename_of cfg w0) \<in> files s"
  shows "audio_path cfg (filename_of cfg w0) \<in> files (fst (snd (process_videos cfg ws (s, ys))))"
proof (rule process_videos_invariant [where P = "\<lambda>t. audio_path cfg (filename_of cfg w0) \<in> files t"])
  show "\<And>w t zs. w \<in> set ws \<Longrightarrow> audio_path cfg (filename_of cfg w0) \<in> files t \<Longrightarrow>
          audio_path cfg (filename_of cfg w0) \<in> files (fst (snd (process_video cfg w (t, zs))))"
    by (rule audio_kept_step)
  show "audio_path cfg (filename_of cfg w0) \<in> files s" by (rule assms)
qed

lemma entries_mono_step: "set ys \<subseteq> set (snd (snd (process_video cfg w (s, ys))))"
  using process_video_frame [of cfg w s ys] by (auto simp: frame_def)

lemma entries_mono: "set ys \<subseteq> set (snd (snd (process_videos cfg ws (s, ys))))"
proof (induction ws arbitrary: s ys)
  case Nil
  then show ?case by simp
next
  case (Cons w ws)
  obtain fatal s1 ys1 where pv: "process_video cfg w (s, ys) = (fatal, s1, ys1)"
    using prod_cases3 by blast
  have m1: "set ys \<subseteq> set ys1" using entries_mono_step [of ys cfg w s] pv by simp
  show ?case
  proof (cases fatal)
    case None
    have "set ys1 \<subseteq> set (snd (snd (process_videos cfg ws (s1, ys1))))" by (rule Cons.IH)
    then show ?thesis using pv None m1 by auto
  next
    case (Some e)
    then show ?thesis using pv m1 by simp
  qed
qed

lemma first_run_all_tagged:
  assumes "tag_count (fst (snd (process_videos cfg ws (s, ys)))) = tag_count s + length ws"
  shows "fst (process_videos cfg ws (s, ys)) = None \<and>
         (\<forall>w\<in>set ws. resolved cfg w \<and>
            audio_path cfg (filename_of cfg w) \<in> files (fst (snd (process_videos cfg ws (s, ys)))) \<and>
            set (prepared cfg w) \<subseteq> set (snd (snd (process_videos cfg ws (s, ys)))))"
  using assms
proof (induction ws arbitrary: s ys)
  case Nil
  then show ?case by simp
next
  case (Cons w ws)
  obtain fatal s1 ys1 where pv: "process_video cfg w (s, ys) = (fatal, s1, ys1)"
    using prod_cases3 by blast
  have b1: "tag_count s1 \<le> tag_count s + 1" using step_tag_count [of cfg w s ys] pv by simp
  show ?case
  proof (cases fatal)
    case (Some e)
    then have "process_videos cfg (w # ws) (s, ys) = (Some e, s1, ys1)" using pv by simp
    moreover have "(s1, ys1) = (s, ys)"
      using process_video_fatal_unchanged [of cfg w "(s, ys)"] pv Some by simp
    ultimately show ?thesis using Cons.prems by simp
  next
    case None
    then have rest: "process_videos cfg (w # ws) (s, ys) = process_videos cfg ws (s1, ys1)"
      using pv by simp
    let ?s' = "fst (snd (process_videos cfg ws (s1, ys1)))"
    let ?ys' = "snd (snd (process_videos cfg ws (s1, ys1)))"
    have b2: "tag_count ?s' \<le> tag_count s1 + length ws" by (rule process_videos_tag_bound)
    have total: "tag_count ?s' = tag_count s + 1 + length ws" using Cons.prems rest by simp
    have c1: "tag_count s1 = tag_count s + 1" using b1 b2 total by simp
    have c2: "tag_count ?s' = tag_count s1 + length ws" using c1 total by simp
    have IH: "fst (process_videos cfg ws (s1, ys1)) = None \<and>
         (\<forall>w\<in>set ws. resolved cfg w \<and> audio_path cfg (filename_of cfg w) \<in> files ?s' \<and>
            set (prepared cfg w) \<subseteq> set ?ys')"
      using c2 by (rule Cons.IH)
    have w1: "resolved cfg w \<and> audio_path cfg (filename_of cfg w) \<in> files s1 \<and>
              ys1 = ys @ prepared cfg w"
      using step_tag_count [of cfg w s ys] pv c1 by simp
    have "audio_path cfg (filename_of cfg w) \<in> files ?s'" using w1 by (simp add: audio_kept)
    moreover have "set (prepared cfg w) \<subseteq> set ?ys'"
      using w1 entries_mono [of ys1 cfg ws s1] by auto
    ultimately show ?thesis using IH w1 rest by simp
  qed
qed

lemma second_run_steps:
  assumes "\<forall>w\<in>set ws. resolved cfg w \<and> audio_path cfg (filename_of cfg w) \<in> files s"
  shows "process_videos cfg ws (s, ys) =
           (None,
            s\<lparr>events := events s @ map (\<lambda>w. Tag (audio_path cfg (filename_of cfg w))) ws\<rparr>,
            ys @ concat (map (prepared cfg) ws))"
  using assms
proof (induction ws arbitrary: s ys)
  case Nil
  then show ?case by simp
next
  case (Cons w ws)
  let ?s1 = "s\<lparr>events := events s @ [Tag (audio_path cfg (filename_of cfg w))]\<rparr>"
  have step: "process_video cfg w (s, ys) = (None, ?s1, ys @ prepared cfg w)"
    using Cons.prems by (intro process_video_audio_present_prepared) simp_all
  have "\<forall>v\<in>set ws. resolved cfg v \<and> audio_path cfg (filename_of cfg v) \<in> files ?s1"
    using Cons.prems by simp
  then have "process_videos cfg ws (?s1, ys @ prepared cfg w) =
           (None,
            ?s1\<lparr>events := events ?s1 @ map (\<lambda>w. Tag (audio_path cfg (filename_of cfg w))) ws\<rparr>,
            (ys @ prepared cfg w) @ concat (map (prepared cfg) ws))"
    by (rule Cons.IH)
  then show ?case using step by simp
qed

section \<open>A run after a completed run\<close>

lemma survivors_files: "F \<union> file ` set (survivors F new) = F \<union> file ` set new"
proof (induction new arbitrary: F)
  case Nil
  then show ?case by simp
next
  case (Cons a new)
  show ?case
  proof (cases "file a \<in> F")
    case True
    then show ?thesis using Cons.IH [of F] by auto
  next
    case False
    have "F \<union> file ` set (survivors F (a # new)) =
          insert (file a) F \<union> file ` set (survivors (insert (file a) F) new)"
      using False by simp
    also have "\<dots> = insert (file a) F \<union> file ` set new" by (rule Cons.IH)
    finally show ?thesis by simp
  qed
qed

lemma number_from_files: "file ` set (number_from n xs) = file ` set xs"
  using files_number_from [of n xs] by (metis set_map)

lemma upsert_files:
  "file ` set (entries (upsertEpisodes doc new)) = file ` set (entries doc) \<union> file ` set new"
  using survivors_files [of "file ` set (entries doc)" new]
  by (simp add: entries_upsert image_Un number_from_files)

lemma upsert_absorbed:
  assumes sub: "file ` set new \<subseteq> file ` set (entries doc)"
    and sorted: "sorted (map ordinal (entries doc))"
    and some: "episodes doc = Some (entries doc)"
  shows "upsertEpisodes doc new = doc"
proof -
  have "survivors (set (map file (entries doc))) new = []"
    using sub by (intro survivors_none) simp
  then have "upsert_loop new (entries doc) (set (map file (entries doc))) (existingMax (entries doc) + 1)
             = entries doc"
    by (simp add: upsert_loop_survivors)
  then have "upsertEpisodes doc new = doc\<lparr>episodes := Some (sort_key ordinal (entries doc))\<rparr>"
    by (simp add: upsertEpisodes_def Let_def)
  also have "\<dots> = doc\<lparr>episodes := Some (entries doc)\<rparr>"
    using sorted by (simp add: sort_key_id_if_sorted)
  also have "\<dots> = doc" using some by simp
  finally show ?thesis .
qed

lemma upsert_output:
  "sorted (map ordinal (entries (upsertEpisodes doc new))) \<and>
   episodes (upsertEpisodes doc new) = Some (entries (upsertEpisodes doc new))"
  by (simp add: upsertEpisodes_def Let_def entries_def)

lemma upsert_twice:
  assumes "file ` set new2 \<subseteq> file ` set new1"
  shows "upsertEpisodes (upsertEpisodes doc new1) new2 = upsertEpisodes doc new1"
proof (rule upsert_absorbed)
  show "file ` set new2 \<subseteq> file ` set (entries (upsertEpisodes doc new1))"
    using assms by (auto simp: upsert_files)
  show "sorted (map ordinal (entries (upsertEpisodes doc new1)))"
    using upsert_output by blast
  show "episodes (upsertEpisodes doc new1) = Some (entries (upsertEpisodes doc new1))"
    using upsert_output by blast
qed

lemma main_completed:
  assumes "discovered r = Some ws" and "ws \<noteq> []"
    and "process_videos cfg ws (s, []) = (None, s', ys)"
  shows "main cfg r (s, c) =
           (0, s',
            if GENERATE_YAML cfg \<and> ys \<noteq> []
            then (if write_ok r
                  then Some (upsertEpisodes (readYamlTemplateOrExisting c (template_doc r))
                               (sort_key pub_date ys))
                  else c)
            else c)"
  using assms by (simp add: main_def Let_def)

lemma main_fatal:
  assumes "discovered r = Some ws" and "ws \<noteq> []"
    and "process_videos cfg ws (s, []) = (Some e, s', ys)"
  shows "main cfg r (s, c) = (1, s', c)"
  using assms by (simp add: main_def)

lemma main_nothing_discovered:
  assumes "discovered r = Some []"
  shows "main cfg r (s, c) = (0, s, c)"
  using assms by (simp add: main_def)

lemma prepared_Inl:
  "yaml_entry cfg w (audio_path cfg (filename_of cfg w)) = Inl x \<Longrightarrow> prepared cfg w = []"
  by (simp add: prepared_def)

lemma prepared_Inr:
  "yaml_entry cfg w (audio_path cfg (filename_of cfg w)) = Inr y \<Longrightarrow>
   prepared cfg w = (if GENERATE_YAML cfg then [y] else [])"
  by (simp add: prepared_def)

lemma prepared_file:
  assumes "e \<in> set (prepared cfg w)"
  shows "file e = basename (audio_path cfg (filename_of cfg w))"
proof (cases "yaml_entry cfg w (audio_path cfg (filename_of cfg w))")
  case (Inl x)
  have "prepared cfg w = []" using Inl by (rule prepared_Inl)
  then show ?thesis using assms by simp
next
  case (Inr y)
  have "prepared cfg w = (if GENERATE_YAML cfg then [y] else [])" using Inr by (rule prepared_Inr)
  then have "e = y" using assms by (simp split: if_splits)
  then show ?thesis using Inr yaml_entry_file by blast
qed

lemma prepared_same_site:
  assumes "same_site cfg w1 w2"
  shows "map file (prepared cfg w2) = map file (prepared cfg w1)"
proof -
  have m: "meta_response w2 = meta_response w1" and f: "filename_of cfg w2 = filename_of cfg w1"
    using assms by (simp_all add: same_site_def)
  show ?thesis
    by (auto simp: prepared_def yaml_entry_def Let_def m f split: option.splits)
qed

lemma resolved_same_site: "same_site cfg w1 w2 \<Longrightarrow> resolved cfg w2 = resolved cfg w1"
  by (simp add: same_site_def resolved_def)

lemma list_all2_partner:
  "list_all2 P xs ys \<Longrightarrow> y \<in> set ys \<Longrightarrow> \<exists>x\<in>set xs. P x y"
  by (induction rule: list_all2_induct) auto

lemma first_run_outcome:
  assumes run1: "main cfg r1 (s0, c0) = (0, s1, c1)"
    and d1: "discovered r1 = Some ws1"
    and ne: "ws1 \<noteq> []"
    and written: "GENERATE_YAML cfg \<longrightarrow> write_ok r1"
  shows "\<exists>ys1. process_videos cfg ws1 (s0, []) = (None, s1, ys1) \<and>
           c1 = (if GENERATE_YAML cfg \<and> ys1 \<noteq> []
                 then Some (upsertEpisodes (readYamlTemplateOrExisting c0 (template_doc r1))
                              (sort_key pub_date ys1))
                 else c0)"
proof -
  obtain fatal s1' ys1 where pv1: "process_videos cfg ws1 (s0, []) = (fatal, s1', ys1)"
    using prod_cases3 by blast
  show ?thesis
  proof (cases fatal)
    case (Some e)
    have "main cfg r1 (s0, c0) = (1, s1', c0)"
      using pv1 Some by (intro main_fatal [OF d1 ne]) simp
    then have "(1::nat) = 0" using run1 by simp
    then show ?thesis by simp
  next
    case None
    have pv: "process_videos cfg ws1 (s0, []) = (None, s1', ys1)" using pv1 None by simp
    have m1: "main cfg r1 (s0, c0) =
           (0, s1',
            if GENERATE_YAML cfg \<and> ys1 \<noteq> []
            then (if write_ok r1
                  then Some (upsertEpisodes (readYamlTemplateOrExisting c0 (template_doc r1))
                               (sort_key pub_date ys1))
                  else c0)
            else c0)"
      by (rule main_completed [OF d1 ne pv])
    have s: "s1' = s1" using m1 unfolding run1 by simp
    have c: "c1 = (if GENERATE_YAML cfg \<and> ys1 \<noteq> []
            then (if write_ok r1
                  then Some (upsertEpisodes (readYamlTemplateOrExisting c0 (template_doc r1))
                               (sort_key pub_date ys1))
                  else c0)
            else c0)"
      using m1 unfolding run1 by simp
    have c': "c1 = (if GENERATE_YAML cfg \<and> ys1 \<noteq> []
                 then Some (upsertEpisodes (readYamlTemplateOrExisting c0 (template_doc r1))
                              (sort_key pub_date ys1))
                 else c0)"
    proof (cases "GENERATE_YAML cfg \<and> ys1 \<noteq> []")
      case True
      then have "write_ok r1" using written by blast
      then show ?thesis using c True by simp
    next
      case False
      show ?thesis unfolding c by (simp only: if_not_P [OF False])
    qed
    show ?thesis using pv s c' by blast
  qed
qed

lemma second_run_catalog:
  assumes c1: "c1 = (if GENERATE_YAML cfg \<and> ys1 \<noteq> []
                 then Some (upsertEpisodes doc (sort_key pub_date ys1))
                 else c0)"
    and files2: "file ` set ys2 \<subseteq> file ` set ys1"
  shows "(if GENERATE_YAML cfg \<and> ys2 \<noteq> []
          then (if ok
                then Some (upsertEpisodes (readYamlTemplateOrExisting c1 t) (sort_key pub_date ys2))
                else c1)
          else c1) = c1"
proof (cases "GENERATE_YAML cfg \<and> ys2 \<noteq> []")
  case False
  show ?thesis by (simp only: if_not_P [OF False])
next
  case True
  then obtain e where e: "e \<in> set ys2" by (cases ys2) auto
  have "file e \<in> file ` set ys2" using e by (rule imageI)
  then have "file e \<in> file ` set ys1" using files2 by (rule subsetD [rotated])
  then have ne1: "ys1 \<noteq> []" by auto
  have g1: "GENERATE_YAML cfg \<and> ys1 \<noteq> []" using True ne1 by blast
  have c1': "c1 = Some (upsertEpisodes doc (sort_key pub_date ys1))"
    using c1 unfolding if_P [OF g1] .
  have rd: "readYamlTemplateOrExisting c1 t = upsertEpisodes doc (sort_key pub_date ys1)"
    unfolding c1' by (simp add: readYamlTemplateOrExisting_def)
  have "file ` set (sort_key pub_date ys2) \<subseteq> file ` set (sort_key pub_date ys1)"
    using files2 by simp
  then have tw: "upsertEpisodes (upsertEpisodes doc (sort_key pub_date ys1)) (sort_key pub_date ys2)
             = upsertEpisodes doc (sort_key pub_date ys1)"
    by (rule upsert_twice)
  have e: "Some (upsertEpisodes (readYamlTemplateOrExisting c1 t) (sort_key pub_date ys2)) = c1"
    unfolding rd tw by (rule c1' [symmetric])
  show ?thesis unfolding if_P [OF True] e by simp
qed

lemma second_run_audio:
  assumes all1: "\<forall>w\<in>set ws1. resolved cfg w \<and> audio_path cfg (filename_of cfg w) \<in> files s1 \<and>
            set (prepared cfg w) \<subseteq> set ys1"
    and same: "list_all2 (same_site cfg) ws1 ws2"
  shows "(\<forall>w\<in>set ws2. resolved cfg w \<and> audio_path cfg (filename_of cfg w) \<in> files s1) \<and>
         file ` set (concat (map (prepared cfg) ws2)) \<subseteq> file ` set ys1"
proof (intro conjI ballI subsetI)
  fix w2 assume in2: "w2 \<in> set ws2"
  obtain w1 where w1: "w1 \<in> set ws1" and ss: "same_site cfg w1 w2"
    using list_all2_partner [OF same in2] by blast
  have r: "resolved cfg w2 = resolved cfg w1" using ss by (rule resolved_same_site)
  have f: "filename_of cfg w2 = filename_of cfg w1" using ss by (simp add: same_site_def)
  show "resolved cfg w2" using all1 w1 r by blast
  show "audio_path cfg (filename_of cfg w2) \<in> files s1" using all1 w1 unfolding f by blast
next
  fix f assume "f \<in> file ` set (concat (map (prepared cfg) ws2))"
  then obtain w2 e where in2: "w2 \<in> set ws2" and e: "e \<in> set (prepared cfg w2)" and f: "f = file e"
    by auto
  obtain w1 where w1: "w1 \<in> set ws1" and ss: "same_site cfg w1 w2"
    using list_all2_partner [OF same in2] by blast
  have "set (map file (prepared cfg w2)) = set (map file (prepared cfg w1))"
    using prepared_same_site [OF ss] by simp
  then have "file ` set (prepared cfg w2) = file ` set (prepared cfg w1)" by simp
  then have "f \<in> file ` set (prepared cfg w1)" using e f by blast
  moreover have "set (prepared cfg w1) \<subseteq> set ys1" using all1 w1 by blast
  ultimately show "f \<in> file ` set ys1" by blast
qed

section \<open>Pages the resolver cannot read\<close>

lemma extractVideoUrl_static_miss:
  assumes "static_miss J html"
    and "rendered = RenderFailed \<or> (\<exists>d c. rendered = Rendered d c \<and> \<not> truthy d \<and> \<not> truthy c)"
  shows "extractVideoUrl J (Some (Text html)) rendered = Inr None"
proof -
  have f: "fusion_url J html = None" using assms(1) by (simp add: static_miss_def)
  have v: "\<not> truthy (or_else (video_source_src html) (video_src html))"
    using assms(1) by (simp add: static_miss_def)
  have sc: "\<not> truthy (or_else (script_media_url html) (script_assigned_url html))"
    using assms(1) by (simp add: static_miss_def)
  have d: "\<not> (truthy (or_else (or_else (data_video_src html) (data_src html)) (data_url html)) \<and>
               (case or_else (or_else (data_video_src html) (data_src html)) (data_url html) of
                  None \<Rightarrow> False | Some d \<Rightarrow> has_media_ext d))"
    using assms(1) by (auto simp: static_miss_def truthy_def split: option.splits)
  have t: "\<not> truthy None" by (simp add: truthy_def)
  show ?thesis
    using assms(2) f v sc d t by (auto simp: extractVideoUrl_def Let_def)
qed

lemma process_videos_skip:
  assumes "extractVideoUrl (JSON_parse cfg) (page_response w) (render_response w) = Inr None"
  shows "process_videos cfg (w # ws) st = process_videos cfg ws st"
  using assms by (simp add: process_video_unresolved)

lemma extractVideoUrl_rendered:
  assumes "static_miss J html"
  shows "extractVideoUrl J (Some (Text html)) (Rendered d c) =
           Inr (if truthy d then d else if truthy c then c else None)"
proof -
  have f: "fusion_url J html = None" using assms(1) by (simp add: static_miss_def)
  have v: "\<not> truthy (or_else (video_source_src html) (video_src html))"
    using assms(1) by (simp add: static_miss_def)
  have sc: "\<not> truthy (or_else (script_media_url html) (script_assigned_url html))"
    using assms(1) by (simp add: static_miss_def)
  have d: "\<not> (truthy (or_else (or_else (data_video_src html) (data_src html)) (data_url html)) \<and>
               (case or_else (or_else (data_video_src html) (data_src html)) (data_url html) of
                  None \<Rightarrow> False | Some d \<Rightarrow> has_media_ext d))"
    using assms(1) by (auto simp: static_miss_def truthy_def split: option.splits)
  have t: "\<not> truthy None" by (simp add: truthy_def)
  show ?thesis
    using f v sc d t by (auto simp: extractVideoUrl_def Let_def)
qed

text \<open>The exceptions that leave the resolver.\<close>

lemma extractVideoUrl_throws_iff:
  "extractVideoUrl J fetched rendered = Inl e \<longleftrightarrow>
     (fetched = None \<and> e = FetchError) \<or>
     (fetched = Some NotText \<and> e = TypeError) \<or>
     (\<exists>html. fetched = Some (Text html) \<and> static_miss J html \<and> rendered = CloseFailed \<and>
             e = CloseError)"
proof (cases fetched)
  case None
  then show ?thesis by (auto simp: extractVideoUrl_def)
next
  case (Some b)
  show ?thesis
  proof (cases b)
    case NotText
    then show ?thesis using Some by (auto simp: extractVideoUrl_def)
  next
    case (Text html)
    have t: "\<not> truthy None" by (simp add: truthy_def)
    have sm: "static_miss J html \<longleftrightarrow>
        \<not> truthy (fusion_url J html) \<and>
        \<not> truthy (or_else (video_source_src html) (video_src html)) \<and>
        \<not> truthy (or_else (script_media_url html) (script_assigned_url html)) \<and>
        \<not> (truthy (or_else (or_else (data_video_src html) (data_src html)) (data_url html)) \<and>
           (case or_else (or_else (data_video_src html) (data_src html)) (data_url html) of
              None \<Rightarrow> False | Some d \<Rightarrow> has_media_ext d))"
      using fusion_url_truthy [of J html]
      by (auto simp: static_miss_def truthy_def split: option.splits)
    show ?thesis
    proof (cases "static_miss J html")
      case True
      then show ?thesis using Some Text sm
        by (cases rendered) (auto simp: extractVideoUrl_def Let_def)
    next
      case False
      then show ?thesis using Some Text sm
        by (auto simp: extractVideoUrl_def Let_def)
    qed
  qed
qed

lemma process_videos_abort:
  assumes "extractVideoUrl (JSON_parse cfg) (page_response w) (render_response w) = Inl e"
  shows "process_videos cfg (w # ws) st = (Some e, st)"
  using assms by (simp add: process_video_unresolved)

lemma main_abort:
  assumes "extractVideoUrl (JSON_parse cfg) (page_response w) (render_response w) = Inl e"
  shows "main cfg \<lparr>discovered = Some (w # ws), template_doc = t, write_ok = b\<rparr> (s, c) = (1, s, c)"
proof -
  have pv: "process_videos cfg (w # ws) (s, []) = (Some e, s, [])"
    using assms by (rule process_videos_abort)
  show ?thesis by (rule main_fatal [OF _ _ pv]) simp_all
qed

section \<open>The claims\<close>

subsection \<open>Resuming from a video file\<close>

text \<open>
  Claim C1, for the videos whose page resolves. For a video the resolver gives a usable
  URL for, whose video file exists at the derived path and whose audio file does not:
  \<open>downloadVideo\<close> returns \<open>true\<close> and leaves the state as it is, so it sends no request; the
  iteration then logs one call of the transcoder on the existing video file and nothing
  before it; and when the transcoder succeeds, the video file is gone, the audio file
  exists, and the audio file is tagged.
\<close>

theorem resume_from_video:
  assumes res: "extractVideoUrl (JSON_parse cfg) (page_response w) (render_response w) = Inr (Some u)"
    and u: "u \<noteq> []"
    and video: "video_path cfg (filename_of cfg w) \<in> files s"
    and audio: "audio_path cfg (filename_of cfg w) \<notin> files s"
  shows "downloadVideo cfg (download_response w) u (filename_of cfg w) s = (True, s) \<and>
         (case process_video cfg w (s, ys) of
            (fatal, s', ys') \<Rightarrow>
              fatal = None \<and>
              events s' =
                events s @
                Transcode (video_path cfg (filename_of cfg w)) (audio_path cfg (filename_of cfg w)) #
                (if ffmpeg_response w = Transcoded then [Tag (audio_path cfg (filename_of cfg w))] else []) \<and>
              (ffmpeg_response w = Transcoded \<longrightarrow>
                 video_path cfg (filename_of cfg w) \<notin> files s' \<and>
                 audio_path cfg (filename_of cfg w) \<in> files s'))"
proof (cases "ffmpeg_response w")
  case Transcoded
  then show ?thesis
    using process_video_video_only(1,2) [OF res u video audio] filename_paths_distinct [of cfg w]
    by (simp add: tag_and_catalog_present)
next
  case (TranscodeFailed left)
  then show ?thesis
    using process_video_video_only(1,3) [OF res u video audio]
    by simp
qed

text \<open>
  The video published on 4 March 2024, with its video file on disk and no audio file.
\<close>

theorem resume_from_video_witness:
  "extractVideoUrl (JSON_parse ex_cfg) (page_response ex_world) (render_response ex_world)
     = Inr (Some ''https://v.example/ep.mp4'') \<and>
   ''https://v.example/ep.mp4'' \<noteq> [] \<and>
   video_path ex_cfg (filename_of ex_cfg ex_world) \<in> files ex_video_only \<and>
   audio_path ex_cfg (filename_of ex_cfg ex_world) \<notin> files ex_video_only \<and>
   downloadVideo ex_cfg (download_response ex_world) ''https://v.example/ep.mp4''
     (filename_of ex_cfg ex_world) ex_video_only = (True, ex_video_only) \<and>
   (case process_video ex_cfg ex_world (ex_video_only, []) of
      (fatal, s', ys') \<Rightarrow>
        fatal = None \<and>
        events s' =
          events ex_video_only @
          Transcode (video_path ex_cfg (filename_of ex_cfg ex_world))
            (audio_path ex_cfg (filename_of ex_cfg ex_world)) #
          (if ffmpeg_response ex_world = Transcoded
           then [Tag (audio_path ex_cfg (filename_of ex_cfg ex_world))] else []) \<and>
        (ffmpeg_response ex_world = Transcoded \<longrightarrow>
           video_path ex_cfg (filename_of ex_cfg ex_world) \<notin> files s' \<and>
           audio_path ex_cfg (filename_of ex_cfg ex_world) \<in> files s')) \<and>
   process_video ex_cfg ex_world (ex_video_only, []) =
     (None,
      \<lparr>files = {ex_audio}, events = [Transcode ex_video ex_audio, Tag ex_audio]\<rparr>,
      [\<lparr>file = ''Mental-Health-Mondays-2024-03-04.mp3'', title = ''Sleep'', description = [],
        pub_date = 1709546400000, explicit = False, season = 1, episode_type = ''full''\<rparr>])"
proof -
  have h1: "extractVideoUrl (JSON_parse ex_cfg) (page_response ex_world) (render_response ex_world)
     = Inr (Some ''https://v.example/ep.mp4'')" by code_simp
  have h2: "''https://v.example/ep.mp4'' \<noteq> []" by simp
  have h3: "video_path ex_cfg (filename_of ex_cfg ex_world) \<in> files ex_video_only" by code_simp
  have h4: "audio_path ex_cfg (filename_of ex_cfg ex_world) \<notin> files ex_video_only" by code_simp
  note t = resume_from_video [OF h1 h2 h3 h4, where ys = "[]"]
  have c2: "process_video ex_cfg ex_world (ex_video_only, []) =
     (None,
      \<lparr>files = {ex_audio}, events = [Transcode ex_video ex_audio, Tag ex_audio]\<rparr>,
      [\<lparr>file = ''Mental-Health-Mondays-2024-03-04.mp3'', title = ''Sleep'', description = [],
        pub_date = 1709546400000, explicit = False, season = 1, episode_type = ''full''\<rparr>])"
    by code_simp
  show ?thesis
    by (intro conjI h1 h2 h3 h4 t [THEN conjunct1] t [THEN conjunct2] c2)
qed

text \<open>
  As it is written, the claim fails for a video whose page gives the resolver nothing:
  \<open>main\<close> skips the video before it derives a file name, so the video file that lies at
  the path the metadata would give is neither transcoded nor removed, and no audio file
  appears.
\<close>

theorem unresolved_video_not_transcoded:
  "video_path ex_cfg (filename_of ex_cfg ex_unresolvable) \<in> files ex_video_only \<and>
   audio_path ex_cfg (filename_of ex_cfg ex_unresolvable) \<notin> files ex_video_only \<and>
   extractVideoUrl (JSON_parse ex_cfg) (page_response ex_unresolvable) (render_response ex_unresolvable)
     = Inr None \<and>
   process_video ex_cfg ex_unresolvable (ex_video_only, []) = (None, ex_video_only, []) \<and>
   main ex_cfg (ex_run [ex_unresolvable]) (ex_video_only, None) =
     (0, \<lparr>files = {''/data/Mental-Health-Mondays-2024-03-04.mp4''}, events = []\<rparr>, None)"
  by code_simp

subsection \<open>A second run over the same site\<close>

text \<open>
  Claim C2, with the conditions the code needs. The first run completes with exit code 0
  and tags every video it discovered (so every video was resolved and has its audio file),
  it writes the catalog when the catalog is enabled, and the second run sees the same site
  for the same videos and derives the same file names. Then the second run also ends with
  exit code 0, its only events are one tagging per video, so it sends no media request and
  calls the transcoder never, the files are the same, and the catalog is the same.
\<close>

theorem second_run_idle:
  assumes run1: "main cfg r1 (s0, c0) = (0, s1, c1)"
    and d1: "discovered r1 = Some ws1"
    and d2: "discovered r2 = Some ws2"
    and tagged: "tag_count s1 = tag_count s0 + length ws1"
    and written: "GENERATE_YAML cfg \<longrightarrow> write_ok r1"
    and same: "list_all2 (same_site cfg) ws1 ws2"
  shows "main cfg r2 (s1, c1) =
           (0, s1\<lparr>events := events s1 @ map (\<lambda>w. Tag (audio_path cfg (filename_of cfg w))) ws2\<rparr>, c1)"
proof (cases "ws1 = []")
  case True
  then have "ws2 = []" using same by simp
  then have "discovered r2 = Some []" using d2 by simp
  then have "main cfg r2 (s1, c1) = (0, s1, c1)" by (rule main_nothing_discovered)
  then show ?thesis using \<open>ws2 = []\<close> by simp
next
  case False
  have len: "length ws1 = length ws2" using same by (rule list_all2_lengthD)
  have ne2: "ws2 \<noteq> []" using False len by auto
  obtain ys1 where pv1: "process_videos cfg ws1 (s0, []) = (None, s1, ys1)"
    and c1: "c1 = (if GENERATE_YAML cfg \<and> ys1 \<noteq> []
                 then Some (upsertEpisodes (readYamlTemplateOrExisting c0 (template_doc r1))
                              (sort_key pub_date ys1))
                 else c0)"
    using first_run_outcome [OF run1 d1 False written] by blast
  have "tag_count (fst (snd (process_videos cfg ws1 (s0, [])))) = tag_count s0 + length ws1"
    unfolding pv1 using tagged by simp
  then have "fst (process_videos cfg ws1 (s0, [])) = None \<and>
         (\<forall>w\<in>set ws1. resolved cfg w \<and>
            audio_path cfg (filename_of cfg w) \<in> files (fst (snd (process_videos cfg ws1 (s0, [])))) \<and>
            set (prepared cfg w) \<subseteq> set (snd (snd (process_videos cfg ws1 (s0, [])))))"
    by (rule first_run_all_tagged)
  then have all1: "\<forall>w\<in>set ws1. resolved cfg w \<and> audio_path cfg (filename_of cfg w) \<in> files s1 \<and>
            set (prepared cfg w) \<subseteq> set ys1"
    unfolding pv1 by simp
  let ?ys2 = "concat (map (prepared cfg) ws2)"
  let ?s2 = "s1\<lparr>events := events s1 @ map (\<lambda>w. Tag (audio_path cfg (filename_of cfg w))) ws2\<rparr>"
  have all2: "\<forall>w\<in>set ws2. resolved cfg w \<and> audio_path cfg (filename_of cfg w) \<in> files s1"
    and files2: "file ` set ?ys2 \<subseteq> file ` set ys1"
    using second_run_audio [OF all1 same] by blast+
  have "process_videos cfg ws2 (s1, []) = (None, ?s2, [] @ ?ys2)"
    using all2 by (rule second_run_steps)
  then have pv2: "process_videos cfg ws2 (s1, []) = (None, ?s2, ?ys2)" by simp
  have m2: "main cfg r2 (s1, c1) =
           (0, ?s2,
            if GENERATE_YAML cfg \<and> ?ys2 \<noteq> []
            then (if write_ok r2
                  then Some (upsertEpisodes (readYamlTemplateOrExisting c1 (template_doc r2))
                               (sort_key pub_date ?ys2))
                  else c1)
            else c1)"
    by (rule main_completed [OF d2 ne2 pv2])
  show ?thesis unfolding m2 second_run_catalog [OF c1 files2] by (rule refl)
qed

text \<open>
  Two dated videos on an empty data directory; the second run is a day later, with a
  network and a transcoder that would fail if they were used.
\<close>

theorem second_run_idle_witness:
  "main ex_cfg (ex_run [ex_world, ex_world2]) (ex_fresh, None) = (0, fst ex_acquired, snd ex_acquired) \<and>
   discovered (ex_run [ex_world, ex_world2]) = Some [ex_world, ex_world2] \<and>
   discovered (ex_run [ex_rerun ex_world, ex_rerun ex_world2]) = Some [ex_rerun ex_world, ex_rerun ex_world2] \<and>
   tag_count (fst ex_acquired) = tag_count ex_fresh + length [ex_world, ex_world2] \<and>
   write_ok (ex_run [ex_world, ex_world2]) \<and>
   list_all2 (same_site ex_cfg) [ex_world, ex_world2] [ex_rerun ex_world, ex_rerun ex_world2] \<and>
   main ex_cfg (ex_run [ex_rerun ex_world, ex_rerun ex_world2]) (fst ex_acquired, snd ex_acquired) =
     (0,
      (fst ex_acquired)\<lparr>events := events (fst ex_acquired) @
         map (\<lambda>w. Tag (audio_path ex_cfg (filename_of ex_cfg w))) [ex_rerun ex_world, ex_rerun ex_world2]\<rparr>,
      snd ex_acquired) \<and>
   files (fst ex_acquired) =
     {''/data/Mental-Health-Mondays-2024-03-04.mp3'', ''/data/Mental-Health-Mondays-2024-03-11.mp3''}"
proof -
  have h1: "main ex_cfg (ex_run [ex_world, ex_world2]) (ex_fresh, None) = (0, fst ex_acquired, snd ex_acquired)"
    by code_simp
  have h2: "discovered (ex_run [ex_world, ex_world2]) = Some [ex_world, ex_world2]"
    by (simp add: ex_run_def)
  have h3: "discovered (ex_run [ex_rerun ex_world, ex_rerun ex_world2]) = Some [ex_rerun ex_world, ex_rerun ex_world2]"
    by (simp add: ex_run_def)
  have h4: "tag_count (fst ex_acquired) = tag_count ex_fresh + length [ex_world, ex_world2]"
    by code_simp
  have h5: "write_ok (ex_run [ex_world, ex_world2])" by (simp add: ex_run_def)
  have h5': "GENERATE_YAML ex_cfg \<longrightarrow> write_ok (ex_run [ex_world, ex_world2])" using h5 by simp
  have h6: "list_all2 (same_site ex_cfg) [ex_world, ex_world2] [ex_rerun ex_world, ex_rerun ex_world2]"
    by code_simp
  have e: "files (fst ex_acquired) =
     {''/data/Mental-Health-Mondays-2024-03-04.mp3'', ''/data/Mental-Health-Mondays-2024-03-11.mp3''}"
    by code_simp
  show ?thesis
    by (intro conjI h1 h2 h3 h4 h5 h6 second_run_idle [OF h1 h2 h3 h4 h5' h6] e)
qed

text \<open>
  As it is written, the claim fails for a video without a publish date. The first run, on
  5 March 2024, completes: it fetches, transcodes, tags and catalogs the video under the
  name of that day. The second run, on 6 March 2024, sees the same page, rendering and
  metadata, derives the name of the new day, finds no audio file under it, and so fetches
  and transcodes again and adds a second entry to the catalog.
\<close>

theorem second_run_refetches_undated:
  "main ex_cfg (ex_run [ex_undated]) (ex_fresh, None) =
     (0,
      \<lparr>files = {''/data/Mental-Health-Mondays-2024-03-05.mp3''},
       events = [Fetch ''https://v.example/ep.mp4'' ''/data/Mental-Health-Mondays-2024-03-05.mp4'',
                 Transcode ''/data/Mental-Health-Mondays-2024-03-05.mp4''
                   ''/data/Mental-Health-Mondays-2024-03-05.mp3'',
                 Tag ''/data/Mental-Health-Mondays-2024-03-05.mp3'']\<rparr>,
      Some \<lparr>episodes = Some [with_episode (ex_entry ''Mental-Health-Mondays-2024-03-05.mp3'' 1709604000000
                                               \<lparr>title := ''Sleep''\<rparr>) 1],
            other_keys = []\<rparr>) \<and>
   page_response (ex_undated\<lparr>clock_filename := 1709690400000, clock_yaml := 1709690400000\<rparr>) = page_response ex_undated \<and>
   render_response (ex_undated\<lparr>clock_filename := 1709690400000, clock_yaml := 1709690400000\<rparr>) = render_response ex_undated \<and>
   meta_response (ex_undated\<lparr>clock_filename := 1709690400000, clock_yaml := 1709690400000\<rparr>) = meta_response ex_undated \<and>
   events (fst (snd (main ex_cfg (ex_run [ex_undated\<lparr>clock_filename := 1709690400000, clock_yaml := 1709690400000\<rparr>])
                      (snd (main ex_cfg (ex_run [ex_undated]) (ex_fresh, None)))))) =
     [Fetch ''https://v.example/ep.mp4'' ''/data/Mental-Health-Mondays-2024-03-05.mp4'',
      Transcode ''/data/Mental-Health-Mondays-2024-03-05.mp4'' ''/data/Mental-Health-Mondays-2024-03-05.mp3'',
      Tag ''/data/Mental-Health-Mondays-2024-03-05.mp3'',
      Fetch ''https://v.example/ep.mp4'' ''/data/Mental-Health-Mondays-2024-03-06.mp4'',
      Transcode ''/data/Mental-Health-Mondays-2024-03-06.mp4'' ''/data/Mental-Health-Mondays-2024-03-06.mp3'',
      Tag ''/data/Mental-Health-Mondays-2024-03-06.mp3''] \<and>
   map (\<lambda>e. (file e, episode e))
     (entries (case snd (snd (main ex_cfg (ex_run [ex_undated\<lparr>clock_filename := 1709690400000, clock_yaml := 1709690400000\<rparr>])
                      (snd (main ex_cfg (ex_run [ex_undated]) (ex_fresh, None))))) of
                 None \<Rightarrow> \<lparr>episodes = None, other_keys = []\<rparr> | Some doc \<Rightarrow> doc)) =
     [(''Mental-Health-Mondays-2024-03-05.mp3'', Some 1),
      (''Mental-Health-Mondays-2024-03-06.mp3'', Some 2)]"
  by code_simp

subsection \<open>Failures inside the resolver\<close>

text \<open>
  Claim C3, with the exceptions that do leave the resolver. On a page fetched as text,
  with a browser that closes, \<open>extractVideoUrl\<close> returns: its result is \<open>null\<close> or a non-empty
  URL. A blob that \<open>JSON.parse\<close> rejects is a miss of strategy 1, and the markup of strategy 2
  still gives the URL. When strategies 1 to 4 miss, the result is \<open>null\<close> if the rendering
  fails, and otherwise the URL of the DOM, or else the captured URL, or else \<open>null\<close>. On
  \<open>null\<close>, \<open>main\<close> goes on with the next video as if this one had not been listed. The
  resolver throws in three cases and no other: the page request fails and \<open>fetchPage\<close>
  rethrows; the body is no string; strategies 1 to 4 miss and the browser of the fallback
  fails to close. Then the loop stops before the remaining videos, and the run ends with
  exit code 1 and the files and the catalog it found.
\<close>

theorem resolver_total_on_fetched_page:
  "(rendered \<noteq> CloseFailed \<longrightarrow>
      (\<exists>r. extractVideoUrl J (Some (Text html)) rendered = Inr r \<and> (r = None \<or> truthy r))) \<and>
   (fusion_match html = Some blob \<and> J blob = None \<and> truthy (video_source_src html) \<longrightarrow>
      extractVideoUrl J (Some (Text html)) rendered = Inr (video_source_src html)) \<and>
   (static_miss J html \<longrightarrow>
      extractVideoUrl J (Some (Text html)) RenderFailed = Inr None \<and>
      extractVideoUrl J (Some (Text html)) (Rendered domUrl capturedUrl) =
        Inr (if truthy domUrl then domUrl else if truthy capturedUrl then capturedUrl else None)) \<and>
   (extractVideoUrl (JSON_parse cfg) (page_response w) (render_response w) = Inr None \<longrightarrow>
      process_videos cfg (w # ws) st = process_videos cfg ws st) \<and>
   (extractVideoUrl J fetched rendered = Inl e \<longleftrightarrow>
      (fetched = None \<and> e = FetchError) \<or>
      (fetched = Some NotText \<and> e = TypeError) \<or>
      (\<exists>h. fetched = Some (Text h) \<and> static_miss J h \<and> rendered = CloseFailed \<and> e = CloseError)) \<and>
   (extractVideoUrl (JSON_parse cfg) (page_response w) (render_response w) = Inl e \<longrightarrow>
      process_videos cfg (w # ws) st = (Some e, st) \<and>
      main cfg \<lparr>discovered = Some (w # ws), template_doc = t, write_ok = b\<rparr> (s, c) = (1, s, c))"
proof (intro conjI impI)
  show "\<exists>r. extractVideoUrl J (Some (Text html)) rendered = Inr r \<and> (r = None \<or> truthy r)"
    if "rendered \<noteq> CloseFailed"
    using that by (rule extractVideoUrl_fetched)
  show "extractVideoUrl J (Some (Text html)) rendered = Inr (video_source_src html)"
    if "fusion_match html = Some blob \<and> J blob = None \<and> truthy (video_source_src html)"
    using that extractVideoUrl_malformed by blast
  show "extractVideoUrl J (Some (Text html)) RenderFailed = Inr None" if "static_miss J html"
    using that by (simp add: extractVideoUrl_static_miss)
  show "extractVideoUrl J (Some (Text html)) (Rendered domUrl capturedUrl) =
        Inr (if truthy domUrl then domUrl else if truthy capturedUrl then capturedUrl else None)" if "static_miss J html"
    using that by (rule extractVideoUrl_rendered)
  show "process_videos cfg (w # ws) st = process_videos cfg ws st"
    if "extractVideoUrl (JSON_parse cfg) (page_response w) (render_response w) = Inr None"
    using that by (rule process_videos_skip)
  show "extractVideoUrl J fetched rendered = Inl e \<longleftrightarrow>
      (fetched = None \<and> e = FetchError) \<or>
      (fetched = Some NotText \<and> e = TypeError) \<or>
      (\<exists>h. fetched = Some (Text h) \<and> static_miss J h \<and> rendered = CloseFailed \<and> e = CloseError)"
    by (rule extractVideoUrl_throws_iff)
  show "process_videos cfg (w # ws) st = (Some e, st)"
    if "extractVideoUrl (JSON_parse cfg) (page_response w) (render_response w) = Inl e"
    using that by (rule process_videos_abort)
  show "main cfg \<lparr>discovered = Some (w # ws), template_doc = t, write_ok = b\<rparr> (s, c) = (1, s, c)"
    if "extractVideoUrl (JSON_parse cfg) (page_response w) (render_response w) = Inl e"
    using that by (rule main_abort)
qed

text \<open>
  A page whose blob is malformed and whose markup has a source, a page with neither,
  rendered without result, and a page that cannot be fetched, each followed by a second
  video.
\<close>

theorem resolver_total_on_fetched_page_witness:
  "RenderFailed \<noteq> CloseFailed \<and>
   (\<exists>r. extractVideoUrl ex_JSON_parse (Some (Text (ex_page\<lparr>fusion_match := Some ex_blob_malformed\<rparr>))) RenderFailed
          = Inr r \<and> (r = None \<or> truthy r)) \<and>
   fusion_match (ex_page\<lparr>fusion_match := Some ex_blob_malformed\<rparr>) = Some ex_blob_malformed \<and>
   ex_JSON_parse ex_blob_malformed = None \<and>
   truthy (video_source_src (ex_page\<lparr>fusion_match := Some ex_blob_malformed\<rparr>)) \<and>
   extractVideoUrl ex_JSON_parse (Some (Text (ex_page\<lparr>fusion_match := Some ex_blob_malformed\<rparr>))) RenderFailed
     = Inr (video_source_src (ex_page\<lparr>fusion_match := Some ex_blob_malformed\<rparr>)) \<and>
   static_miss ex_JSON_parse ex_page_blank \<and>
   extractVideoUrl ex_JSON_parse (Some (Text ex_page_blank)) RenderFailed = Inr None \<and>
   extractVideoUrl ex_JSON_parse (Some (Text ex_page_blank)) (Rendered None (Some [])) =
     Inr (if truthy None then None else if truthy (Some []) then Some [] else None) \<and>
   extractVideoUrl ex_JSON_parse (Some (Text ex_page_blank)) (Rendered None (Some [])) = Inr None \<and>
   extractVideoUrl (JSON_parse ex_cfg) (page_response ex_unresolvable) (render_response ex_unresolvable)
     = Inr None \<and>
   process_videos ex_cfg (ex_unresolvable # [ex_world2]) (ex_fresh, []) =
     process_videos ex_cfg [ex_world2] (ex_fresh, []) \<and>
   extractVideoUrl (JSON_parse ex_cfg) (page_response ex_unreachable) (render_response ex_unreachable)
     = Inl FetchError \<and>
   process_videos ex_cfg (ex_unreachable # [ex_world2]) (ex_fresh, []) = (Some FetchError, ex_fresh, []) \<and>
   main ex_cfg \<lparr>discovered = Some (ex_unreachable # [ex_world2]), template_doc = None, write_ok = True\<rparr>
     (ex_fresh, None) = (1, ex_fresh, None)"
proof -
  note t1 = resolver_total_on_fetched_page [where J = ex_JSON_parse
      and html = "ex_page\<lparr>fusion_match := Some ex_blob_malformed\<rparr>"
      and rendered = RenderFailed and blob = ex_blob_malformed and cfg = ex_cfg and w = ex_unresolvable
      and ws = "[ex_world2]" and st = "(ex_fresh, [])" and t = None and b = True and s = ex_fresh and c = None]
  note t2 = resolver_total_on_fetched_page [where J = ex_JSON_parse and html = ex_page_blank
      and rendered = RenderFailed and blob = ex_blob_malformed and cfg = ex_cfg and w = ex_unreachable
      and ws = "[ex_world2]" and st = "(ex_fresh, [])" and t = None and b = True and s = ex_fresh and c = None
      and domUrl = None and capturedUrl = "Some []" and e = FetchError]
  have a0: "RenderFailed \<noteq> CloseFailed" by simp
  note r1 = t1 [THEN conjunct1, THEN mp, OF a0]
  have a1: "fusion_match (ex_page\<lparr>fusion_match := Some ex_blob_malformed\<rparr>) = Some ex_blob_malformed"
    by simp
  have a2: "ex_JSON_parse ex_blob_malformed = None" by code_simp
  have a3: "truthy (video_source_src (ex_page\<lparr>fusion_match := Some ex_blob_malformed\<rparr>))" by code_simp
  note r2 = t1 [THEN conjunct2, THEN conjunct1, THEN mp, OF conjI [OF a1 conjI [OF a2 a3]]]
  have b1: "static_miss ex_JSON_parse ex_page_blank" by code_simp
  note r3 = t2 [THEN conjunct2, THEN conjunct2, THEN conjunct1, THEN mp, OF b1]
  have b2: "extractVideoUrl ex_JSON_parse (Some (Text ex_page_blank)) (Rendered None (Some [])) = Inr None"
    by code_simp
  have c1: "extractVideoUrl (JSON_parse ex_cfg) (page_response ex_unresolvable) (render_response ex_unresolvable)
     = Inr None" by code_simp
  note r4 = t1 [THEN conjunct2, THEN conjunct2, THEN conjunct2, THEN conjunct1, THEN mp, OF c1]
  have d1: "extractVideoUrl (JSON_parse ex_cfg) (page_response ex_unreachable) (render_response ex_unreachable)
     = Inl FetchError" by code_simp
  note r6 = t2 [THEN conjunct2, THEN conjunct2, THEN conjunct2, THEN conjunct2, THEN conjunct2, THEN mp, OF d1]
  show ?thesis
    by (intro conjI a0 r1 a1 a2 a3 r2 b1 r3 [THEN conjunct1] r3 [THEN conjunct2] b2 c1 r4 d1
        r6 [THEN conjunct1] r6 [THEN conjunct2])
qed

text \<open>
  As it is written, the claim fails in each of the three cases: the page of a video
  cannot be fetched, the body is a parsed JSON value, or the page gives nothing and the
  browser fails to close. The resolver throws, and the run stops with exit code 1 without
  processing the video listed after it.
\<close>

theorem resolver_throws_on_fetch_failure:
  "extractVideoUrl (JSON_parse ex_cfg) (page_response ex_unreachable) (render_response ex_unreachable)
     = Inl FetchError \<and>
   main ex_cfg (ex_run [ex_unreachable, ex_world2]) (ex_fresh, None) = (1, ex_fresh, None) \<and>
   extractVideoUrl (JSON_parse ex_cfg) (page_response ex_nontext) (render_response ex_nontext)
     = Inl TypeError \<and>
   main ex_cfg (ex_run [ex_nontext, ex_world2]) (ex_fresh, None) = (1, ex_fresh, None) \<and>
   extractVideoUrl (JSON_parse ex_cfg) (page_response ex_unclosed) (render_response ex_unclosed)
     = Inl CloseError \<and>
   main ex_cfg (ex_run [ex_unclosed, ex_world2]) (ex_fresh, None) = (1, ex_fresh, None)"
  by code_simp

subsection \<open>Duplicates in the catalog merge\<close>

text \<open>
  Claim C4. When the catalog has an entry with the file of \<open>x\<close>, merging a list of new
  entries that contains \<open>x\<close> gives the same catalog as merging the list without \<open>x\<close>: no
  entry is added for it, and the entries after it get the numbers they would get if it
  were not there. Merging \<open>x\<close> alone only sorts the catalog by number. The entries of the
  merged catalog with the file of \<open>x\<close> are those the catalog had.
\<close>

theorem merge_skips_duplicate:
  assumes "file x \<in> set (map file (entries doc))"
  shows "upsertEpisodes doc (pre @ x # post) = upsertEpisodes doc (pre @ post) \<and>
         upsertEpisodes doc [x] = doc\<lparr>episodes := Some (sort_key ordinal (entries doc))\<rparr> \<and>
         filter (\<lambda>e. file e = file x) (entries (upsertEpisodes doc (pre @ x # post))) =
           filter (\<lambda>e. file e = file x) (sort_key ordinal (entries doc))"
proof (intro conjI)
  show "upsertEpisodes doc (pre @ x # post) = upsertEpisodes doc (pre @ post)"
    using assms by (rule upsertEpisodes_drop_duplicate)
  show "upsertEpisodes doc [x] = doc\<lparr>episodes := Some (sort_key ordinal (entries doc))\<rparr>"
    using assms by (simp add: upsertEpisodes_def Let_def)
  show "filter (\<lambda>e. file e = file x) (entries (upsertEpisodes doc (pre @ x # post))) =
           filter (\<lambda>e. file e = file x) (sort_key ordinal (entries doc))"
    using assms by (simp add: entries_upsert filter_number_from_fresh)
qed

text \<open>
  A catalog with \<open>A.mp3\<close> and \<open>X.mp3\<close>, merged with \<open>X.mp3\<close> followed by the new \<open>B.mp3\<close>.
\<close>

theorem merge_skips_duplicate_witness:
  "file (ex_entry ''X.mp3'' 300) \<in> set (map file (entries ex_catalog)) \<and>
   upsertEpisodes ex_catalog ([] @ ex_entry ''X.mp3'' 300 # [ex_entry ''B.mp3'' 400]) =
     upsertEpisodes ex_catalog ([] @ [ex_entry ''B.mp3'' 400]) \<and>
   upsertEpisodes ex_catalog [ex_entry ''X.mp3'' 300] =
     ex_catalog\<lparr>episodes := Some (sort_key ordinal (entries ex_catalog))\<rparr> \<and>
   filter (\<lambda>e. file e = file (ex_entry ''X.mp3'' 300))
     (entries (upsertEpisodes ex_catalog ([] @ ex_entry ''X.mp3'' 300 # [ex_entry ''B.mp3'' 400]))) =
     filter (\<lambda>e. file e = file (ex_entry ''X.mp3'' 300)) (sort_key ordinal (entries ex_catalog)) \<and>
   upsertEpisodes ex_catalog [ex_entry ''X.mp3'' 300] = ex_catalog \<and>
   map episode (entries (upsertEpisodes ex_catalog [ex_entry ''X.mp3'' 300, ex_entry ''B.mp3'' 400])) =
     [Some 1, Some 2, Some 3]"
proof -
  have h: "file (ex_entry ''X.mp3'' 300) \<in> set (map file (entries ex_catalog))" by code_simp
  note t = merge_skips_duplicate [OF h, where pre = "[]" and post = "[ex_entry ''B.mp3'' 400]"]
  have e1: "upsertEpisodes ex_catalog [ex_entry ''X.mp3'' 300] = ex_catalog" by code_simp
  have e2: "map episode (entries (upsertEpisodes ex_catalog [ex_entry ''X.mp3'' 300, ex_entry ''B.mp3'' 400])) =
     [Some 1, Some 2, Some 3]" by code_simp
  show ?thesis
    by (intro conjI h t [THEN conjunct1] t [THEN conjunct2, THEN conjunct1]
        t [THEN conjunct2, THEN conjunct2] e1 e2)
qed

subsection \<open>Numbering in the catalog merge\<close>

text \<open>
  Claim C5, for new entries with different files. The merged catalog is the existing
  entries, sorted by number, followed by the new entries whose file is not in the catalog
  and not earlier in the list, numbered consecutively from the greatest existing number
  plus one (a missing number counts as zero, and so does an empty catalog). A run that
  completes with entries to add and writes the catalog leaves the merge of the catalog it
  read with those entries sorted by publish date. In particular, when the catalog it read
  carries the numbers 1 and 2 and the loop prepared two entries with two different files
  that the catalog does not have, the run gives them 3 and 4 in the order of their publish
  dates, whatever the order in which they were discovered, and the numbers of the catalog
  it writes are 1, 2, 3 and 4.
\<close>

theorem merge_numbers_from_max:
  "entries (upsertEpisodes doc new) =
     sort_key ordinal (entries doc) @
     number_from (existingMax (entries doc) + 1) (survivors (set (map file (entries doc))) new) \<and>
   existingMax (entries doc) = Max (insert 0 (ordinal ` set (entries doc))) \<and>
   (discovered r = Some ws \<and> ws \<noteq> [] \<and> process_videos cfg ws (s, []) = (None, s', ys) \<and>
    GENERATE_YAML cfg \<and> ys \<noteq> [] \<and> write_ok r \<longrightarrow>
      main cfg r (s, c) =
        (0, s', Some (upsertEpisodes (readYamlTemplateOrExisting c (template_doc r))
                        (sort_key pub_date ys)))) \<and>
   (discovered r = Some ws \<and> ws \<noteq> [] \<and> process_videos cfg ws (s, []) = (None, s', [a, b]) \<and>
    GENERATE_YAML cfg \<and> write_ok r \<and>
    set (map episode (entries (readYamlTemplateOrExisting c (template_doc r)))) = {Some 1, Some 2} \<and>
    file a \<notin> set (map file (entries (readYamlTemplateOrExisting c (template_doc r)))) \<and>
    file b \<notin> set (map file (entries (readYamlTemplateOrExisting c (template_doc r)))) \<and>
    file a \<noteq> file b \<longrightarrow>
      (\<exists>updated.
         main cfg r (s, c) = (0, s', Some updated) \<and>
         entries updated =
           sort_key ordinal (entries (readYamlTemplateOrExisting c (template_doc r))) @
           (if pub_date a \<le> pub_date b then [with_episode a 3, with_episode b 4]
            else [with_episode b 3, with_episode a 4]) \<and>
         set (map episode (entries updated)) = {Some 1, Some 2, Some 3, Some 4}))"
proof (intro conjI impI)
  show "entries (upsertEpisodes doc new) =
     sort_key ordinal (entries doc) @
     number_from (existingMax (entries doc) + 1) (survivors (set (map file (entries doc))) new)"
    by (rule entries_upsert)
  show "existingMax (entries doc) = Max (insert 0 (ordinal ` set (entries doc)))"
    by (rule existingMax_Max)
next
  assume h: "discovered r = Some ws \<and> ws \<noteq> [] \<and> process_videos cfg ws (s, []) = (None, s', ys) \<and>
    GENERATE_YAML cfg \<and> ys \<noteq> [] \<and> write_ok r"
  then have d: "discovered r = Some ws" and ne: "ws \<noteq> []"
    and pv: "process_videos cfg ws (s, []) = (None, s', ys)" by blast+
  show "main cfg r (s, c) =
        (0, s', Some (upsertEpisodes (readYamlTemplateOrExisting c (template_doc r))
                        (sort_key pub_date ys)))"
    unfolding main_completed [OF d ne pv] using h by simp
next
  let ?doc = "readYamlTemplateOrExisting c (template_doc r)"
  let ?updated = "upsertEpisodes ?doc (sort_key pub_date [a, b])"
  assume h: "discovered r = Some ws \<and> ws \<noteq> [] \<and> process_videos cfg ws (s, []) = (None, s', [a, b]) \<and>
    GENERATE_YAML cfg \<and> write_ok r \<and>
    set (map episode (entries ?doc)) = {Some 1, Some 2} \<and>
    file a \<notin> set (map file (entries ?doc)) \<and>
    file b \<notin> set (map file (entries ?doc)) \<and>
    file a \<noteq> file b"
  then have d: "discovered r = Some ws" and ne: "ws \<noteq> []"
    and pv: "process_videos cfg ws (s, []) = (None, s', [a, b])" by blast+
  have m: "main cfg r (s, c) = (0, s', Some ?updated)"
    unfolding main_completed [OF d ne pv] using h by simp
  have eq: "entries ?updated =
        sort_key ordinal (entries ?doc) @
        (if pub_date a \<le> pub_date b then [with_episode a 3, with_episode b 4]
         else [with_episode b 3, with_episode a 4])"
    using h merge_two_new [of ?doc a b] by blast
  from h have ords: "episode ` set (entries ?doc) = {Some 1, Some 2}" by simp
  have nums: "set (map episode (entries ?updated)) = {Some 1, Some 2, Some 3, Some 4}"
    unfolding eq using ords by (cases "pub_date a \<le> pub_date b") auto
  show "\<exists>updated.
         main cfg r (s, c) = (0, s', Some updated) \<and>
         entries updated =
           sort_key ordinal (entries ?doc) @
           (if pub_date a \<le> pub_date b then [with_episode a 3, with_episode b 4]
            else [with_episode b 3, with_episode a 4]) \<and>
         set (map episode (entries updated)) = {Some 1, Some 2, Some 3, Some 4}"
    using m eq nums by blast
qed

text \<open>
  A catalog with the numbers 1 and 2, and a run that discovers the video of 11 March 2024
  before the video of 4 March 2024: the video of 4 March gets 3, the one of 11 March 4.
\<close>

theorem merge_numbers_from_max_witness:
  "entries (upsertEpisodes ex_catalog [ex_entry ''X.mp3'' 300, ex_entry ''B.mp3'' 400]) =
     sort_key ordinal (entries ex_catalog) @
     number_from (existingMax (entries ex_catalog) + 1)
       (survivors (set (map file (entries ex_catalog))) [ex_entry ''X.mp3'' 300, ex_entry ''B.mp3'' 400]) \<and>
   existingMax (entries ex_catalog) = Max (insert 0 (ordinal ` set (entries ex_catalog))) \<and>
   discovered (ex_run [ex_world2, ex_world]) = Some [ex_world2, ex_world] \<and>
   [ex_world2, ex_world] \<noteq> [] \<and>
   process_videos ex_cfg [ex_world2, ex_world] (ex_fresh, []) =
     (None, fst (snd (process_videos ex_cfg [ex_world2, ex_world] (ex_fresh, []))),
      [ex_entry ''Mental-Health-Mondays-2024-03-11.mp3'' 1710151200000 \<lparr>title := ''Stress''\<rparr>,
       ex_entry ''Mental-Health-Mondays-2024-03-04.mp3'' 1709546400000 \<lparr>title := ''Sleep''\<rparr>]) \<and>
   GENERATE_YAML ex_cfg \<and>
   write_ok (ex_run [ex_world2, ex_world]) \<and>
   main ex_cfg (ex_run [ex_world2, ex_world]) (ex_fresh, Some ex_catalog) =
     (0, fst (snd (process_videos ex_cfg [ex_world2, ex_world] (ex_fresh, []))),
      Some (upsertEpisodes
              (readYamlTemplateOrExisting (Some ex_catalog) (template_doc (ex_run [ex_world2, ex_world])))
              (sort_key pub_date
                 [ex_entry ''Mental-Health-Mondays-2024-03-11.mp3'' 1710151200000 \<lparr>title := ''Stress''\<rparr>,
                  ex_entry ''Mental-Health-Mondays-2024-03-04.mp3'' 1709546400000 \<lparr>title := ''Sleep''\<rparr>]))) \<and>
   set (map episode (entries (readYamlTemplateOrExisting (Some ex_catalog)
          (template_doc (ex_run [ex_world2, ex_world]))))) = {Some 1, Some 2} \<and>
   (\<exists>updated.
      main ex_cfg (ex_run [ex_world2, ex_world]) (ex_fresh, Some ex_catalog) =
        (0, fst (snd (process_videos ex_cfg [ex_world2, ex_world] (ex_fresh, []))), Some updated) \<and>
      entries updated =
        sort_key ordinal (entries (readYamlTemplateOrExisting (Some ex_catalog)
          (template_doc (ex_run [ex_world2, ex_world])))) @
        (if pub_date (ex_entry ''Mental-Health-Mondays-2024-03-11.mp3'' 1710151200000 \<lparr>title := ''Stress''\<rparr>)
            \<le> pub_date (ex_entry ''Mental-Health-Mondays-2024-03-04.mp3'' 1709546400000 \<lparr>title := ''Sleep''\<rparr>)
         then [with_episode (ex_entry ''Mental-Health-Mondays-2024-03-11.mp3'' 1710151200000 \<lparr>title := ''Stress''\<rparr>) 3,
               with_episode (ex_entry ''Mental-Health-Mondays-2024-03-04.mp3'' 1709546400000 \<lparr>title := ''Sleep''\<rparr>) 4]
         else [with_episode (ex_entry ''Mental-Health-Mondays-2024-03-04.mp3'' 1709546400000 \<lparr>title := ''Sleep''\<rparr>) 3,
               with_episode (ex_entry ''Mental-Health-Mondays-2024-03-11.mp3'' 1710151200000 \<lparr>title := ''Stress''\<rparr>) 4]) \<and>
      set (map episode (entries updated)) = {Some 1, Some 2, Some 3, Some 4}) \<and>
   map (\<lambda>e. (file e, episode e))
     (entries (case snd (snd (main ex_cfg (ex_run [ex_world2, ex_world]) (ex_fresh, Some ex_catalog))) of
                 None \<Rightarrow> \<lparr>episodes = None, other_keys = []\<rparr> | Some doc \<Rightarrow> doc)) =
     [(''A.mp3'', Some 1), (''X.mp3'', Some 2),
      (''Mental-Health-Mondays-2024-03-04.mp3'', Some 3),
      (''Mental-Health-Mondays-2024-03-11.mp3'', Some 4)]"
proof -
  let ?a = "ex_entry ''Mental-Health-Mondays-2024-03-11.mp3'' 1710151200000 \<lparr>title := ''Stress''\<rparr>"
  let ?b = "ex_entry ''Mental-Health-Mondays-2024-03-04.mp3'' 1709546400000 \<lparr>title := ''Sleep''\<rparr>"
  let ?s' = "fst (snd (process_videos ex_cfg [ex_world2, ex_world] (ex_fresh, [])))"
  note t = merge_numbers_from_max [where doc = ex_catalog
      and new = "[ex_entry ''X.mp3'' 300, ex_entry ''B.mp3'' 400]"
      and r = "ex_run [ex_world2, ex_world]" and ws = "[ex_world2, ex_world]" and cfg = ex_cfg
      and s = ex_fresh and s' = ?s' and ys = "[?a, ?b]" and c = "Some ex_catalog"
      and a = ?a and b = ?b]
  have k1: "discovered (ex_run [ex_world2, ex_world]) = Some [ex_world2, ex_world]"
    by (simp add: ex_run_def)
  have k2: "[ex_world2, ex_world] \<noteq> []" by simp
  have k3: "process_videos ex_cfg [ex_world2, ex_world] (ex_fresh, []) = (None, ?s', [?a, ?b])"
    by code_simp
  have k4: "GENERATE_YAML ex_cfg" by code_simp
  have k5: "[?a, ?b] \<noteq> []" by simp
  have k6: "write_ok (ex_run [ex_world2, ex_world])" by (simp add: ex_run_def)
  have k7: "set (map episode (entries (readYamlTemplateOrExisting (Some ex_catalog)
          (template_doc (ex_run [ex_world2, ex_world]))))) = {Some 1, Some 2}" by code_simp
  have k8: "file ?a \<notin> set (map file (entries (readYamlTemplateOrExisting (Some ex_catalog)
          (template_doc (ex_run [ex_world2, ex_world])))))" by code_simp
  have k9: "file ?b \<notin> set (map file (entries (readYamlTemplateOrExisting (Some ex_catalog)
          (template_doc (ex_run [ex_world2, ex_world])))))" by code_simp
  have k10: "file ?a \<noteq> file ?b" by code_simp
  note r3 = t [THEN conjunct2, THEN conjunct2, THEN conjunct1, THEN mp,
      OF conjI [OF k1 conjI [OF k2 conjI [OF k3 conjI [OF k4 conjI [OF k5 k6]]]]]]
  note r4 = t [THEN conjunct2, THEN conjunct2, THEN conjunct2, THEN mp,
      OF conjI [OF k1 conjI [OF k2 conjI [OF k3 conjI [OF k4 conjI [OF k6 conjI [OF k7
         conjI [OF k8 conjI [OF k9 k10]]]]]]]]]
  have e: "map (\<lambda>e. (file e, episode e))
     (entries (case snd (snd (main ex_cfg (ex_run [ex_world2, ex_world]) (ex_fresh, Some ex_catalog))) of
                 None \<Rightarrow> \<lparr>episodes = None, other_keys = []\<rparr> | Some doc \<Rightarrow> doc)) =
     [(''A.mp3'', Some 1), (''X.mp3'', Some 2),
      (''Mental-Health-Mondays-2024-03-04.mp3'', Some 3),
      (''Mental-Health-Mondays-2024-03-11.mp3'', Some 4)]"
    by code_simp
  show ?thesis
    by (intro conjI t [THEN conjunct1] t [THEN conjunct2, THEN conjunct1] k1 k2 k3 k4 k6 r3 k7 r4 e)
qed

text \<open>
  As it is written, the claim fails for two new entries with one file, which the catalog
  does not have: the second is skipped, and the numbers of the merged catalog are 1, 2 and
  3. One run prepares two such entries for two videos without a publish date.
\<close>

theorem same_file_entries_share_number:
  "set (map episode (entries ex_catalog)) = {Some 1, Some 2} \<and>
   file (ex_entry ''B.mp3'' 400) \<notin> set (map file (entries ex_catalog)) \<and>
   file (ex_entry ''B.mp3'' 500) \<notin> set (map file (entries ex_catalog)) \<and>
   map (\<lambda>e. (file e, episode e))
     (entries (upsertEpisodes ex_catalog (sort_key pub_date [ex_entry ''B.mp3'' 400, ex_entry ''B.mp3'' 500]))) =
     [(''A.mp3'', Some 1), (''X.mp3'', Some 2), (''B.mp3'', Some 3)] \<and>
   set (map episode
     (entries (upsertEpisodes ex_catalog (sort_key pub_date [ex_entry ''B.mp3'' 400, ex_entry ''B.mp3'' 500]))))
     \<noteq> {Some 1, Some 2, Some 3, Some 4} \<and>
   snd (snd (process_videos ex_cfg [ex_undated, ex_undated2] (ex_fresh, []))) =
     [ex_entry ''Mental-Health-Mondays-2024-03-05.mp3'' 1709604000000 \<lparr>title := ''Sleep''\<rparr>,
      ex_entry ''Mental-Health-Mondays-2024-03-05.mp3'' 1709604000000 \<lparr>title := ''Stress''\<rparr>] \<and>
   map (\<lambda>e. (file e, episode e))
     (entries (case snd (snd (main ex_cfg (ex_run [ex_undated, ex_undated2]) (ex_fresh, Some ex_catalog))) of
                 None \<Rightarrow> \<lparr>episodes = None, other_keys = []\<rparr> | Some doc \<Rightarrow> doc)) =
     [(''A.mp3'', Some 1), (''X.mp3'', Some 2), (''Mental-Health-Mondays-2024-03-05.mp3'', Some 3)]"
  by code_simp

subsection \<open>Order of the resolver cascade\<close>




subsection \<open>A failed download\<close>

text \<open>
  Claim C7, for a cleanup that works and a file name of its own. For a resolved video
  with neither artifact on disk whose media request fails: the iteration logs the request
  and nothing else, so the video is neither transcoded nor tagged nor cataloged, and it
  tries to remove the partial file, ignoring a failure to do so; the files are those from
  before, with the partial file when it was written and could not be removed. When the
  partial file, if any, was removed, the files are those from before; and when moreover
  no later video of the run derives the same file name, neither artifact exists at the
  end of the loop, and the request is the only event of the loop about this file name.
\<close>

theorem failed_download_leaves_nothing:
  assumes res: "extractVideoUrl (JSON_parse cfg) (page_response w) (render_response w) = Inr (Some u)"
    and u: "u \<noteq> []"
    and video: "video_path cfg (filename_of cfg w) \<notin> files s"
    and audio: "audio_path cfg (filename_of cfg w) \<notin> files s"
    and net: "download_response w = DownloadFailed partial cleaned"
  shows "process_video cfg w (s, ys) =
           (None,
            s\<lparr>files := (if partial \<and> \<not> cleaned then insert (video_path cfg (filename_of cfg w)) (files s)
                         else files s),
              events := events s @ [Fetch u (video_path cfg (filename_of cfg w))]\<rparr>, ys) \<and>
         ((partial \<longrightarrow> cleaned) \<longrightarrow>
          process_video cfg w (s, ys) =
            (None, s\<lparr>events := events s @ [Fetch u (video_path cfg (filename_of cfg w))]\<rparr>, ys)) \<and>
         ((partial \<longrightarrow> cleaned) \<and> (\<forall>w'\<in>set rest. filename_of cfg w' \<noteq> filename_of cfg w) \<longrightarrow>
          (case process_videos cfg (w # rest) (s, ys) of
             (fatal, s', ys') \<Rightarrow>
               video_path cfg (filename_of cfg w) \<notin> files s' \<and>
               audio_path cfg (filename_of cfg w) \<notin> files s' \<and>
               filter (about cfg (filename_of cfg w)) (events s') =
                 filter (about cfg (filename_of cfg w)) (events s) @
                 [Fetch u (video_path cfg (filename_of cfg w))]))"
proof (intro conjI impI)
  let ?f = "filename_of cfg w"
  let ?s1 = "s\<lparr>events := events s @ [Fetch u (video_path cfg ?f)]\<rparr>"
  let ?E = "filter (about cfg ?f) (events s) @ [Fetch u (video_path cfg ?f)]"
  let ?Q = "\<lambda>t. video_path cfg ?f \<notin> files t \<and> audio_path cfg ?f \<notin> files t \<and>
                 filter (about cfg ?f) (events t) = ?E"
  show general: "process_video cfg w (s, ys) =
           (None,
            s\<lparr>files := (if partial \<and> \<not> cleaned then insert (video_path cfg ?f) (files s) else files s),
              events := events s @ [Fetch u (video_path cfg ?f)]\<rparr>, ys)"
    by (rule process_video_download_failed [OF res u video audio net])
  have step: "process_video cfg w (s, ys) = (None, ?s1, ys)" if "partial \<longrightarrow> cleaned"
    unfolding general using that by auto
  show "process_video cfg w (s, ys) = (None, ?s1, ys)" if "partial \<longrightarrow> cleaned"
    using that by (rule step)
  assume h: "(partial \<longrightarrow> cleaned) \<and> (\<forall>w'\<in>set rest. filename_of cfg w' \<noteq> ?f)"
  then have others: "\<forall>w'\<in>set rest. filename_of cfg w' \<noteq> ?f" by blast
  have step': "process_video cfg w (s, ys) = (None, ?s1, ys)" using h step by blast
  have Q1: "?Q ?s1" using video audio by (simp add: about_def)
  have "?Q (fst (snd (process_videos cfg rest (?s1, ys))))"
  proof (rule process_videos_invariant [where P = ?Q])
    show "\<And>w' t zs. w' \<in> set rest \<Longrightarrow> ?Q t \<Longrightarrow> ?Q (fst (snd (process_video cfg w' (t, zs))))"
      using others other_step_keeps_absent by blast
    show "?Q ?s1" by (rule Q1)
  qed
  then show "case process_videos cfg (w # rest) (s, ys) of
             (fatal, s', ys') \<Rightarrow>
               video_path cfg ?f \<notin> files s' \<and>
               audio_path cfg ?f \<notin> files s' \<and>
               filter (about cfg ?f) (events s') = ?E"
    by (auto simp: step' split: prod.splits)
qed

text \<open>
  The video of 4 March 2024 with a request that fails and leaves a partial file, which
  the cleanup removes, followed by the video of 11 March 2024.
\<close>

theorem failed_download_leaves_nothing_witness:
  "extractVideoUrl (JSON_parse ex_cfg) (page_response ex_failing) (render_response ex_failing)
     = Inr (Some ''https://v.example/ep.mp4'') \<and>
   ''https://v.example/ep.mp4'' \<noteq> [] \<and>
   video_path ex_cfg (filename_of ex_cfg ex_failing) \<notin> files ex_fresh \<and>
   audio_path ex_cfg (filename_of ex_cfg ex_failing) \<notin> files ex_fresh \<and>
   download_response ex_failing = DownloadFailed True True \<and>
   process_video ex_cfg ex_failing (ex_fresh, []) =
     (None,
      ex_fresh\<lparr>files := (if True \<and> \<not> True
                           then insert (video_path ex_cfg (filename_of ex_cfg ex_failing)) (files ex_fresh)
                           else files ex_fresh),
               events := events ex_fresh @
                 [Fetch ''https://v.example/ep.mp4'' (video_path ex_cfg (filename_of ex_cfg ex_failing))]\<rparr>,
      []) \<and>
   process_video ex_cfg ex_failing (ex_fresh, []) =
     (None,
      ex_fresh\<lparr>events := events ex_fresh @
                 [Fetch ''https://v.example/ep.mp4'' (video_path ex_cfg (filename_of ex_cfg ex_failing))]\<rparr>,
      []) \<and>
   filename_of ex_cfg ex_world2 \<noteq> filename_of ex_cfg ex_failing \<and>
   (case process_videos ex_cfg [ex_failing, ex_world2] (ex_fresh, []) of
      (fatal, s', ys') \<Rightarrow>
        video_path ex_cfg (filename_of ex_cfg ex_failing) \<notin> files s' \<and>
        audio_path ex_cfg (filename_of ex_cfg ex_failing) \<notin> files s' \<and>
        filter (about ex_cfg (filename_of ex_cfg ex_failing)) (events s') =
          filter (about ex_cfg (filename_of ex_cfg ex_failing)) (events ex_fresh) @
          [Fetch ''https://v.example/ep.mp4'' (video_path ex_cfg (filename_of ex_cfg ex_failing))])"
proof -
  have h1: "extractVideoUrl (JSON_parse ex_cfg) (page_response ex_failing) (render_response ex_failing)
     = Inr (Some ''https://v.example/ep.mp4'')" by code_simp
  have h2: "''https://v.example/ep.mp4'' \<noteq> []" by simp
  have h3: "video_path ex_cfg (filename_of ex_cfg ex_failing) \<notin> files ex_fresh" by code_simp
  have h4: "audio_path ex_cfg (filename_of ex_cfg ex_failing) \<notin> files ex_fresh" by code_simp
  have h5: "download_response ex_failing = DownloadFailed True True" by code_simp
  have h6: "filename_of ex_cfg ex_world2 \<noteq> filename_of ex_cfg ex_failing" by code_simp
  note t = failed_download_leaves_nothing [OF h1 h2 h3 h4 h5, where ys = "[]" and rest = "[ex_world2]"]
  have clean: "True \<longrightarrow> True" by simp
  have others: "(True \<longrightarrow> True) \<and> (\<forall>w'\<in>set [ex_world2]. filename_of ex_cfg w' \<noteq> filename_of ex_cfg ex_failing)"
    using h6 by simp
  show ?thesis
    by (intro conjI h1 h2 h3 h4 h5 h6 t [THEN conjunct1]
        t [THEN conjunct2, THEN conjunct1, THEN mp, OF clean]
        t [THEN conjunct2, THEN conjunct2, THEN mp, OF others])
qed

text \<open>
  As it is written, the claim fails in two cases. A video without a publish date whose
  media request fails is followed by another video without a publish date: both derive
  the file name of the day, and the audio file of the second video lies at the path of the
  first after the run. And a partial file that the cleanup cannot remove stays at the
  path of the video.
\<close>

theorem failed_download_name_reused:
  "extractVideoUrl (JSON_parse ex_cfg) (page_response ex_undated_failing) (render_response ex_undated_failing)
     = Inr (Some ''https://v.example/ep.mp4'') \<and>
   download_response ex_undated_failing = DownloadFailed True True \<and>
   audio_path ex_cfg (filename_of ex_cfg ex_undated_failing) = ''/data/Mental-Health-Mondays-2024-03-05.mp3'' \<and>
   process_videos ex_cfg [ex_undated_failing, ex_undated2] (ex_fresh, []) =
     (None,
      \<lparr>files = {''/data/Mental-Health-Mondays-2024-03-05.mp3''},
       events = [Fetch ''https://v.example/ep.mp4'' ''/data/Mental-Health-Mondays-2024-03-05.mp4'',
                 Fetch ''https://v.example/ep.mp4'' ''/data/Mental-Health-Mondays-2024-03-05.mp4'',
                 Transcode ''/data/Mental-Health-Mondays-2024-03-05.mp4''
                   ''/data/Mental-Health-Mondays-2024-03-05.mp3'',
                 Tag ''/data/Mental-Health-Mondays-2024-03-05.mp3'']\<rparr>,
      [ex_entry ''Mental-Health-Mondays-2024-03-05.mp3'' 1709604000000 \<lparr>title := ''Stress''\<rparr>]) \<and>
   audio_path ex_cfg (filename_of ex_cfg ex_undated_failing)
     \<in> files (fst (snd (process_videos ex_cfg [ex_undated_failing, ex_undated2] (ex_fresh, [])))) \<and>
   download_response ex_uncleaned = DownloadFailed True False \<and>
   process_video ex_cfg ex_uncleaned (ex_fresh, []) =
     (None,
      \<lparr>files = {''/data/Mental-Health-Mondays-2024-03-04.mp4''},
       events = [Fetch ''https://v.example/ep.mp4'' ''/data/Mental-Health-Mondays-2024-03-04.mp4'']\<rparr>,
      []) \<and>
   video_path ex_cfg (filename_of ex_cfg ex_uncleaned)
     \<in> files (fst (snd (process_video ex_cfg ex_uncleaned (ex_fresh, []))))"
  by code_simp

subsection \<open>File names and the clock\<close>




subsection \<open>De-duplication in the discovery\<close>

text \<open>
  Claim C9, with the comparison the code makes. The discovery returns the candidates of
  the cards, and of the anchors when the cards give none, each with its URL made absolute,
  in the order of the document, keeping of each URL the first candidate; two URLs are the
  same when they are the same string. The URLs of the result are pairwise distinct.
\<close>

theorem discovery_first_seen:
  "searchForVideos api (Some l) =
     Inr (first_seen
            (if List.map_filter (card_candidate api) (cards l) = []
             then List.map_filter (anchor_candidate api) (anchors l)
             else List.map_filter (card_candidate api) (cards l))) \<and>
   (searchForVideos api (Some l) = Inr vs \<longrightarrow> distinct (map v_url vs))"
proof -
  have eq: "searchForVideos api (Some l) =
     Inr (first_seen
            (if List.map_filter (card_candidate api) (cards l) = []
             then List.map_filter (anchor_candidate api) (anchors l)
             else List.map_filter (card_candidate api) (cards l)))"
    by (simp add: searchForVideos_def Let_def foldl_card_step foldl_anchor_step
        foldl_push_unique first_seen_Nil_iff)
  show ?thesis unfolding eq by (auto simp: distinct_first_seen)
qed

text \<open>
  A listing of three cards, the third repeating the URL of the first.
\<close>

theorem discovery_first_seen_witness:
  "searchForVideos ex_urls (Some ex_listing) =
     Inr (first_seen
            (if List.map_filter (card_candidate ex_urls) (cards ex_listing) = []
             then List.map_filter (anchor_candidate ex_urls) (anchors ex_listing)
             else List.map_filter (card_candidate ex_urls) (cards ex_listing))) \<and>
   searchForVideos ex_urls (Some ex_listing) =
     Inr [\<lparr>v_title = ''Sleep'', v_url = ''https://www.wtap.com/2024/03/04/sleep/''\<rparr>,
          \<lparr>v_title = ''Stress'', v_url = ''https://www.wtap.com/2024/03/11/stress/''\<rparr>] \<and>
   distinct (map v_url
     [\<lparr>v_title = ''Sleep'', v_url = ''https://www.wtap.com/2024/03/04/sleep/''\<rparr>,
      \<lparr>v_title = ''Stress'', v_url = ''https://www.wtap.com/2024/03/11/stress/''\<rparr>])"
proof -
  note t = discovery_first_seen [where api = ex_urls and l = ex_listing and
      vs = "[\<lparr>v_title = ''Sleep'', v_url = ''https://www.wtap.com/2024/03/04/sleep/''\<rparr>,
             \<lparr>v_title = ''Stress'', v_url = ''https://www.wtap.com/2024/03/11/stress/''\<rparr>]"]
  have h: "searchForVideos ex_urls (Some ex_listing) =
     Inr [\<lparr>v_title = ''Sleep'', v_url = ''https://www.wtap.com/2024/03/04/sleep/''\<rparr>,
          \<lparr>v_title = ''Stress'', v_url = ''https://www.wtap.com/2024/03/11/stress/''\<rparr>]"
    by code_simp
  show ?thesis
    by (intro conjI t [THEN conjunct1] h t [THEN conjunct2, THEN mp, OF h])
qed

text \<open>
  As it is written, the claim fails for two cards whose URLs differ only in the slash at
  the end: both are returned.
\<close>

theorem trailing_slash_not_merged:
  "searchForVideos ex_urls (Some ex_listing_slash) =
     Inr [\<lparr>v_title = ''Sleep'', v_url = ''https://www.wtap.com/2024/03/04/sleep/''\<rparr>,
          \<lparr>v_title = ''Sleep'', v_url = ''https://www.wtap.com/2024/03/04/sleep''\<rparr>]"
  by code_simp

subsection \<open>A video file beside its audio file\<close>

text \<open>
  Claim C10. For a resolved video with both artifacts on disk, the iteration logs one
  tagging and nothing else, so it sends no request and does not call the transcoder, and
  it leaves the files as they are. Both files are there after any sequence of later runs.
  An iteration, for any video, that removes the video file is one whose transcoder
  succeeded on that file.
\<close>

theorem audio_takes_precedence:
  assumes res: "extractVideoUrl (JSON_parse cfg) (page_response w) (render_response w) = Inr (Some u)"
    and u: "u \<noteq> []"
    and video: "video_path cfg (filename_of cfg w) \<in> files s"
    and audio: "audio_path cfg (filename_of cfg w) \<in> files s"
  shows "process_video cfg w (s, ys) =
           (None, s\<lparr>events := events s @ [Tag (audio_path cfg (filename_of cfg w))]\<rparr>,
            if GENERATE_YAML cfg
            then (case yaml_entry cfg w (audio_path cfg (filename_of cfg w)) of
                    Inl e \<Rightarrow> ys | Inr yamlEp \<Rightarrow> ys @ [yamlEp])
            else ys) \<and>
         (\<forall>rs c. video_path cfg (filename_of cfg w) \<in> files (fst (runs cfg rs (s, c))) \<and>
                 audio_path cfg (filename_of cfg w) \<in> files (fst (runs cfg rs (s, c)))) \<and>
         (\<forall>w' t zs.
            video_path cfg (filename_of cfg w) \<in> files t \<and>
            video_path cfg (filename_of cfg w) \<notin> files (fst (snd (process_video cfg w' (t, zs)))) \<longrightarrow>
              ffmpeg_response w' = Transcoded \<and>
              Transcode (video_path cfg (filename_of cfg w)) (audio_path cfg (filename_of cfg w))
                \<in> set (events (fst (snd (process_video cfg w' (t, zs))))))"
proof (intro conjI allI impI)
  let ?f = "filename_of cfg w"
  let ?P = "\<lambda>t. video_path cfg ?f \<in> files t \<and> audio_path cfg ?f \<in> files t"
  show "process_video cfg w (s, ys) =
           (None, s\<lparr>events := events s @ [Tag (audio_path cfg ?f)]\<rparr>,
            if GENERATE_YAML cfg
            then (case yaml_entry cfg w (audio_path cfg ?f) of Inl e \<Rightarrow> ys | Inr yamlEp \<Rightarrow> ys @ [yamlEp])
            else ys)"
    by (rule process_video_audio_present [OF res u audio])
  have keep: "\<And>rs c. ?P (fst (runs cfg rs (s, c)))"
  proof -
    fix rs c
    show "?P (fst (runs cfg rs (s, c)))"
    proof (rule runs_invariant [where P = ?P])
      show "\<And>w' t zs. ?P t \<Longrightarrow> ?P (fst (snd (process_video cfg w' (t, zs))))"
        using step_keeps_both [OF refl] by blast
      show "?P (fst (s, c))" using video audio by simp
    qed
  qed
  show "\<And>rs c. video_path cfg ?f \<in> files (fst (runs cfg rs (s, c)))" using keep by blast
  show "\<And>rs c. audio_path cfg ?f \<in> files (fst (runs cfg rs (s, c)))" using keep by blast
next
  fix w' t zs
  assume h: "video_path cfg (filename_of cfg w) \<in> files t \<and>
            video_path cfg (filename_of cfg w) \<notin> files (fst (snd (process_video cfg w' (t, zs))))"
  then have r: "filename_of cfg w' = filename_of cfg w \<and> ffmpeg_response w' = Transcoded \<and>
         audio_path cfg (filename_of cfg w) \<in> files (fst (snd (process_video cfg w' (t, zs)))) \<and>
         Transcode (video_path cfg (filename_of cfg w)) (audio_path cfg (filename_of cfg w))
           \<in> set (events (fst (snd (process_video cfg w' (t, zs)))))"
    using step_removes_video_only_by_transcode [of cfg "filename_of cfg w" t w' zs] by blast
  from r show "ffmpeg_response w' = Transcoded" by blast
  from r show "Transcode (video_path cfg (filename_of cfg w)) (audio_path cfg (filename_of cfg w))
                \<in> set (events (fst (snd (process_video cfg w' (t, zs)))))" by blast
qed

text \<open>
  The video of 4 March 2024 with both artifacts on disk, through two later runs.
\<close>

theorem audio_takes_precedence_witness:
  "extractVideoUrl (JSON_parse ex_cfg) (page_response ex_world) (render_response ex_world)
     = Inr (Some ''https://v.example/ep.mp4'') \<and>
   ''https://v.example/ep.mp4'' \<noteq> [] \<and>
   video_path ex_cfg (filename_of ex_cfg ex_world) \<in> files ex_both \<and>
   audio_path ex_cfg (filename_of ex_cfg ex_world) \<in> files ex_both \<and>
   process_video ex_cfg ex_world (ex_both, []) =
     (None,
      ex_both\<lparr>events := events ex_both @ [Tag (audio_path ex_cfg (filename_of ex_cfg ex_world))]\<rparr>,
      if GENERATE_YAML ex_cfg
      then (case yaml_entry ex_cfg ex_world (audio_path ex_cfg (filename_of ex_cfg ex_world)) of
              Inl e \<Rightarrow> [] | Inr yamlEp \<Rightarrow> [] @ [yamlEp])
      else []) \<and>
   video_path ex_cfg (filename_of ex_cfg ex_world)
     \<in> files (fst (runs ex_cfg [ex_run [ex_world, ex_world2], ex_run [ex_world]] (ex_both, None))) \<and>
   audio_path ex_cfg (filename_of ex_cfg ex_world)
     \<in> files (fst (runs ex_cfg [ex_run [ex_world, ex_world2], ex_run [ex_world]] (ex_both, None))) \<and>
   video_path ex_cfg (filename_of ex_cfg ex_world) \<in> files ex_video_only \<and>
   video_path ex_cfg (filename_of ex_cfg ex_world)
     \<notin> files (fst (snd (process_video ex_cfg ex_world (ex_video_only, [])))) \<and>
   ffmpeg_response ex_world = Transcoded \<and>
   Transcode (video_path ex_cfg (filename_of ex_cfg ex_world)) (audio_path ex_cfg (filename_of ex_cfg ex_world))
     \<in> set (events (fst (snd (process_video ex_cfg ex_world (ex_video_only, [])))))"
proof -
  have h1: "extractVideoUrl (JSON_parse ex_cfg) (page_response ex_world) (render_response ex_world)
     = Inr (Some ''https://v.example/ep.mp4'')" by code_simp
  have h2: "''https://v.example/ep.mp4'' \<noteq> []" by simp
  have h3: "video_path ex_cfg (filename_of ex_cfg ex_world) \<in> files ex_both" by code_simp
  have h4: "audio_path ex_cfg (filename_of ex_cfg ex_world) \<in> files ex_both" by code_simp
  note t = audio_takes_precedence [OF h1 h2 h3 h4, where ys = "[]"]
  note keep = t [THEN conjunct2, THEN conjunct1,
      THEN spec [where x = "[ex_run [ex_world, ex_world2], ex_run [ex_world]]"],
      THEN spec [where x = None]]
  have g1: "video_path ex_cfg (filename_of ex_cfg ex_world) \<in> files ex_video_only" by code_simp
  have g2: "video_path ex_cfg (filename_of ex_cfg ex_world)
     \<notin> files (fst (snd (process_video ex_cfg ex_world (ex_video_only, []))))" by code_simp
  have g: "video_path ex_cfg (filename_of ex_cfg ex_world) \<in> files ex_video_only \<and>
     video_path ex_cfg (filename_of ex_cfg ex_world)
     \<notin> files (fst (snd (process_video ex_cfg ex_world (ex_video_only, []))))"
    using g1 g2 by (rule conjI)
  have only: "ffmpeg_response ex_world = Transcoded \<and>
     Transcode (video_path ex_cfg (filename_of ex_cfg ex_world)) (audio_path ex_cfg (filename_of ex_cfg ex_world))
     \<in> set (events (fst (snd (process_video ex_cfg ex_world (ex_video_only, [])))))"
    using t [THEN conjunct2, THEN conjunct2] g by blast
  show ?thesis
    by (intro conjI h1 h2 h3 h4 t [THEN conjunct1] keep [THEN conjunct1] keep [THEN conjunct2]
        g1 g2 only [THEN conjunct1] only [THEN conjunct2])
qed

end
